theory Spec2Isabelle
  imports Complex_Main "HOL-Library.Multiset" "HOL-Library.Sublist"
begin

section \<open>JavaScript string primitives\<close>

text \<open>
  Strings are lists of characters with the code points 0 to 255. The case mappings are
  those of JavaScript on this range: the letters \<^verbatim>\<open>A\<close> to \<^verbatim>\<open>Z\<close> and the accented capitals
  192 to 222 (without the multiplication sign 215) have their lower case 32 places up, and
  conversely. Three characters have an upper case that is not one character of this range
  (223, 181 and 255); the model leaves them unchanged. White space is what
  \<^verbatim>\<open>String.prototype.trim\<close> removes among these code points: tab, line feed, vertical
  tab, form feed, carriage return, space and the no-break space.
\<close>

definition isUpperLetter :: "char \<Rightarrow> bool" where
  "isUpperLetter c =
     (let n = (of_char c :: nat) in
      (65 \<le> n \<and> n \<le> 90) \<or> (192 \<le> n \<and> n \<le> 222 \<and> n \<noteq> 215))"

definition isLowerLetter :: "char \<Rightarrow> bool" where
  "isLowerLetter c =
     (let n = (of_char c :: nat) in
      (97 \<le> n \<and> n \<le> 122) \<or> (224 \<le> n \<and> n \<le> 254 \<and> n \<noteq> 247))"

definition toLowerChar :: "char \<Rightarrow> char" where
  "toLowerChar c = (if isUpperLetter c then char_of ((of_char c :: nat) + 32) else c)"

definition toUpperChar :: "char \<Rightarrow> char" where
  "toUpperChar c = (if isLowerLetter c then char_of ((of_char c :: nat) - 32) else c)"

definition toLowerCase :: "string \<Rightarrow> string" where
  "toLowerCase s = map toLowerChar s"

definition toUpperCase :: "string \<Rightarrow> string" where
  "toUpperCase s = map toUpperChar s"

definition isSpaceChar :: "char \<Rightarrow> bool" where
  "isSpaceChar c = ((of_char c :: nat) \<in> set [9, 10, 11, 12, 13, 32, 160])"

definition trim :: "string \<Rightarrow> string" where
  "trim s = rev (dropWhile isSpaceChar (rev (dropWhile isSpaceChar s)))"

text \<open>\<^verbatim>\<open>s.startsWith(t)\<close> and \<^verbatim>\<open>s.includes(t)\<close>: literal substring search.\<close>

fun startsWith :: "string \<Rightarrow> string \<Rightarrow> bool" where
  "startsWith s [] = True"
| "startsWith [] (d # t) = False"
| "startsWith (c # s) (d # t) = (c = d \<and> startsWith s t)"

fun includesStr :: "string \<Rightarrow> string \<Rightarrow> bool" where
  "includesStr [] t = (t = [])"
| "includesStr (c # s) t = (startsWith (c # s) t \<or> includesStr s t)"

text \<open>\<^verbatim>\<open>s.split(/[,;]/)\<close>: the pieces between separators; the empty string gives one empty piece.\<close>

fun splitOn :: "(char \<Rightarrow> bool) \<Rightarrow> string \<Rightarrow> string list" where
  "splitOn p [] = [[]]"
| "splitOn p (c # s) =
     (if p c then [] # splitOn p s
      else (case splitOn p s of [] \<Rightarrow> [[c]] | w # ws \<Rightarrow> (c # w) # ws))"

definition isSeparator :: "char \<Rightarrow> bool" where
  "isSeparator c = (c = CHR '','' \<or> c = CHR '';'')"

definition isQuote :: "char \<Rightarrow> bool" where
  "isQuote c = (c = CHR 0x27 \<or> c = CHR 0x22)"

text \<open>\<^verbatim>\<open>s.replace(/['"]/g, '')\<close>: every quote character is deleted.\<close>

definition removeQuotes :: "string \<Rightarrow> string" where
  "removeQuotes s = filter (\<lambda>c. \<not> isQuote c) s"

text \<open>\<^verbatim>\<open>t.charAt(0).toUpperCase() + t.slice(1).toLowerCase()\<close>\<close>

definition titleCase :: "string \<Rightarrow> string" where
  "titleCase t = toUpperCase (take 1 t) @ toLowerCase (drop 1 t)"

text \<open>\<^verbatim>\<open>req.charAt(0).toUpperCase() + req.slice(1)\<close>\<close>

definition capitalize :: "string \<Rightarrow> string" where
  "capitalize t = toUpperCase (take 1 t) @ drop 1 t"

text \<open>Decimal rendering of a natural number, as template literals and \<^verbatim>\<open>String\<close> do.\<close>

definition digitChar :: "nat \<Rightarrow> char" where
  "digitChar d = char_of (48 + d)"

fun showNat :: "nat \<Rightarrow> string" where
  "showNat n = (if n < 10 then [digitChar n] else showNat (n div 10) @ [digitChar (n mod 10)])"

declare showNat.simps [simp del]

definition showInt :: "int \<Rightarrow> string" where
  "showInt i = (if i < 0 then CHR ''-'' # showNat (nat (- i)) else showNat (nat i))"


section \<open>\<^verbatim>\<open>Number(t)\<close> on strings\<close>

text \<open>
  The token filter of \<^verbatim>\<open>processAndUpload\<close> is \<^verbatim>\<open>!Number(t)\<close>: it holds when the string
  is not a numeric literal (\<^verbatim>\<open>NaN\<close>) and also when the literal denotes zero. The parser
  follows the \<^verbatim>\<open>StringNumericLiteral\<close> grammar: surrounding white space, an optional
  sign, \<^verbatim>\<open>Infinity\<close>, decimal digits with an optional fraction and exponent, and the
  unsigned prefixes \<^verbatim>\<open>0x\<close>, \<^verbatim>\<open>0o\<close>, \<^verbatim>\<open>0b\<close>. A literal keeps its exact mathematical
  value; it converts to the double zero when its magnitude is at most \<open>2\<^sup>-\<^sup>1\<^sup>0\<^sup>7\<^sup>5\<close>.
\<close>

datatype numlit = NotNumeric | Infinite | Value rat

definition isDigit :: "char \<Rightarrow> bool" where
  "isDigit c = (48 \<le> (of_char c :: nat) \<and> (of_char c :: nat) \<le> 57)"

definition radixDigit :: "char \<Rightarrow> nat option" where
  "radixDigit c =
     (let n = (of_char c :: nat) in
      if 48 \<le> n \<and> n \<le> 57 then Some (n - 48)
      else if 97 \<le> n \<and> n \<le> 102 then Some (n - 87)
      else if 65 \<le> n \<and> n \<le> 70 then Some (n - 55)
      else None)"

definition validDigit :: "nat \<Rightarrow> char \<Rightarrow> bool" where
  "validDigit radix c = (case radixDigit c of None \<Rightarrow> False | Some d \<Rightarrow> d < radix)"

definition digitsValue :: "nat \<Rightarrow> string \<Rightarrow> nat" where
  "digitsValue radix ds = foldl (\<lambda>acc c. acc * radix + (case radixDigit c of None \<Rightarrow> 0 | Some d \<Rightarrow> d)) 0 ds"

definition parseRadix :: "nat \<Rightarrow> string \<Rightarrow> numlit" where
  "parseRadix radix ds =
     (if ds \<noteq> [] \<and> list_all (validDigit radix) ds then Value (of_nat (digitsValue radix ds))
      else NotNumeric)"

definition pow10 :: "int \<Rightarrow> rat" where
  "pow10 e = (if 0 \<le> e then 10 ^ nat e else 1 / 10 ^ nat (- e))"

definition parseSignedInteger :: "string \<Rightarrow> int option" where
  "parseSignedInteger s =
     (let neg = (take 1 s = ''-'');
          ds = (if take 1 s = ''-'' \<or> take 1 s = ''+'' then drop 1 s else s)
      in if ds \<noteq> [] \<and> list_all isDigit ds
         then Some ((if neg then - 1 else 1) * int (digitsValue 10 ds))
         else None)"

definition parseExponent :: "string \<Rightarrow> int option" where
  "parseExponent s =
     (if s = [] then Some 0
      else if take 1 s = ''e'' \<or> take 1 s = ''E'' then parseSignedInteger (drop 1 s)
      else None)"

definition parseUnsignedDecimal :: "string \<Rightarrow> numlit" where
  "parseUnsignedDecimal s =
     (if s = ''Infinity'' then Infinite
      else
        let ip = takeWhile isDigit s; r1 = dropWhile isDigit s in
        if take 1 r1 = ''.'' then
          (let fp = takeWhile isDigit (drop 1 r1); r2 = dropWhile isDigit (drop 1 r1) in
           if ip = [] \<and> fp = [] then NotNumeric
           else (case parseExponent r2 of
                   None \<Rightarrow> NotNumeric
                 | Some e \<Rightarrow> Value (of_nat (digitsValue 10 (ip @ fp)) * pow10 (e - int (length fp)))))
        else if ip = [] then NotNumeric
        else (case parseExponent r1 of
                None \<Rightarrow> NotNumeric
              | Some e \<Rightarrow> Value (of_nat (digitsValue 10 ip) * pow10 e)))"

definition negateLit :: "numlit \<Rightarrow> numlit" where
  "negateLit l = (case l of Value q \<Rightarrow> Value (- q) | _ \<Rightarrow> l)"

definition stringToNumber :: "string \<Rightarrow> numlit" where
  "stringToNumber s =
     (let t = trim s in
      if t = [] then Value 0
      else if take 2 t = ''0x'' \<or> take 2 t = ''0X'' then parseRadix 16 (drop 2 t)
      else if take 2 t = ''0o'' \<or> take 2 t = ''0O'' then parseRadix 8 (drop 2 t)
      else if take 2 t = ''0b'' \<or> take 2 t = ''0B'' then parseRadix 2 (drop 2 t)
      else if take 1 t = ''+'' then parseUnsignedDecimal (drop 1 t)
      else if take 1 t = ''-'' then negateLit (parseUnsignedDecimal (drop 1 t))
      else parseUnsignedDecimal t)"

text \<open>\<^verbatim>\<open>!Number(t)\<close>\<close>

definition notNumber :: "string \<Rightarrow> bool" where
  "notNumber t =
     (case stringToNumber t of
        NotNumeric \<Rightarrow> True
      | Infinite \<Rightarrow> False
      | Value q \<Rightarrow> \<bar>q\<bar> \<le> 1 / 2 ^ 1075)"

section \<open>Raw rows\<close>

text \<open>
  A raw row is the list of its entries in the order \<^verbatim>\<open>Object.entries\<close> yields them. A cell
  is a string, a number, a boolean, \<^verbatim>\<open>null\<close> or \<^verbatim>\<open>undefined\<close>. The numbers modelled are the
  integers below \<open>10\<^sup>2\<^sup>1\<close> in magnitude, which \<^verbatim>\<open>String\<close> writes in plain decimal digits.
\<close>

datatype cell = CStr string | CNum int | CBool bool | CNull | CUndefined

type_synonym rawRow = "(string \<times> cell) list"

text \<open>The truthiness test \<^verbatim>\<open>if (!val) return\<close> and the conversion \<^verbatim>\<open>String(val)\<close>.\<close>

fun truthy :: "cell \<Rightarrow> bool" where
  "truthy (CStr s) = (s \<noteq> [])"
| "truthy (CNum n) = (n \<noteq> 0)"
| "truthy (CBool b) = b"
| "truthy CNull = False"
| "truthy CUndefined = False"

fun toString :: "cell \<Rightarrow> string" where
  "toString (CStr s) = s"
| "toString (CNum n) = showInt n"
| "toString (CBool b) = (if b then ''true'' else ''false'')"
| "toString CNull = ''null''"
| "toString CUndefined = ''undefined''"


section \<open>The preprocessing pass \<^verbatim>\<open>processAndUpload\<close>\<close>

text \<open>
  \<^verbatim>\<open>skillFreq\<close> is a plain object used as a counter table. Its entries are kept in
  insertion order, which is the order \<^verbatim>\<open>Object.entries\<close> enumerates string keys that are
  not array indices. The one key an assignment cannot create is \<^verbatim>\<open>__proto__\<close>: reading
  it gives the prototype object, and storing a non-object there is ignored.
\<close>

type_synonym counters = "(string \<times> nat) list"

fun objSet :: "string \<Rightarrow> nat \<Rightarrow> counters \<Rightarrow> counters" where
  "objSet k v [] = [(k, v)]"
| "objSet k v ((k', v') # obj) = (if k' = k then (k, v) # obj else (k', v') # objSet k v obj)"

definition objGet :: "counters \<Rightarrow> string \<Rightarrow> nat option" where
  "objGet obj k = map_of obj k"

text \<open>\<^verbatim>\<open>obj[k] = (obj[k] || 0) + 1\<close>\<close>

definition objIncr :: "counters \<Rightarrow> string \<Rightarrow> counters" where
  "objIncr obj k =
     (if k = ''__proto__'' then obj
      else objSet k ((case objGet obj k of None \<Rightarrow> 0 | Some n \<Rightarrow> n) + 1) obj)"

text \<open>A \<^verbatim>\<open>Set\<close> of strings in insertion order; \<^verbatim>\<open>new Set(xs)\<close> adds the elements in turn.\<close>

definition setAdd :: "string \<Rightarrow> string list \<Rightarrow> string list" where
  "setAdd x s = (if x \<in> set s then s else s @ [x])"

definition newSet :: "string list \<Rightarrow> string list" where
  "newSet xs = foldl (\<lambda>s x. setAdd x s) [] xs"

text \<open>The object pushed onto \<^verbatim>\<open>processedStudents\<close> for each row.\<close>

record rawStudent =
  rs_id :: string
  rs_department :: string
  rs_skills :: "string list"

text \<open>
  The mutable variables of \<^verbatim>\<open>processAndUpload\<close>: the accumulators of the whole pass and
  the three locals that each row resets. (\<^verbatim>\<open>departmentsFound\<close> and the sample rows only
  feed the prompt of the external service and are left out.)
\<close>

record vars =
  validRows :: nat
  skillFreq :: counters
  processedStudents :: "rawStudent list"
  studentId :: string
  department :: string
  studentSkills :: "string list"

definition initVars :: vars where
  "initVars = \<lparr>validRows = 0, skillFreq = [], processedStudents = [],
               studentId = [], department = [], studentSkills = []\<rparr>"

text \<open>\<^verbatim>\<open>valueStr.split(/[,;]/).map(s => s.trim().replace(/['"]/g, ''))\<close>\<close>

definition tokens :: "string \<Rightarrow> string list" where
  "tokens valueStr = map (\<lambda>s. removeQuotes (trim s)) (splitOn isSeparator valueStr)"

text \<open>The body of \<^verbatim>\<open>tokens.forEach\<close>.\<close>

definition admitted :: "string \<Rightarrow> bool" where
  "admitted t = (length t > 1 \<and> notNumber t)"

definition tokenStep :: "string \<Rightarrow> vars \<Rightarrow> vars" where
  "tokenStep t st =
     (if admitted t then
        (let normalized = titleCase t in
         st\<lparr>studentSkills := setAdd normalized (studentSkills st),
            skillFreq := objIncr (skillFreq st) normalized\<rparr>)
      else st)"

text \<open>The column tests on the lower-cased key, in the order of the \<^verbatim>\<open>if\<close> chain.\<close>

definition isIdKey :: "string \<Rightarrow> bool" where
  "isIdKey keyStr = (includesStr keyStr ''id'' \<or> includesStr keyStr ''roll'' \<or>
                     (includesStr keyStr ''student'' \<and> \<not> includesStr keyStr ''name''))"

definition isDeptKey :: "string \<Rightarrow> bool" where
  "isDeptKey keyStr = (includesStr keyStr ''dept'' \<or> includesStr keyStr ''branch'' \<or>
                       includesStr keyStr ''program'')"

text \<open>The body of \<^verbatim>\<open>Object.entries(row).forEach\<close>.\<close>

definition cellStep :: "string \<times> cell \<Rightarrow> vars \<Rightarrow> vars" where
  "cellStep e st =
     (let key = fst e; val = snd e in
      if \<not> truthy val then st
      else
        let valueStr = trim (toString val); keyStr = toLowerCase key in
        if isIdKey keyStr then st\<lparr>studentId := valueStr\<rparr>
        else if isDeptKey keyStr then st\<lparr>department := valueStr\<rparr>
        else if length valueStr > 1 \<and> \<not> includesStr keyStr ''name''
          then foldl (\<lambda>s t. tokenStep t s) st (tokens valueStr)
        else st)"

text \<open>The body of \<^verbatim>\<open>rawData.forEach((row, index) => ...)\<close>.\<close>

definition rowStep :: "rawRow \<Rightarrow> nat \<Rightarrow> vars \<Rightarrow> vars" where
  "rowStep row index st =
     (let st1 = st\<lparr>validRows := (if length row > 0 then validRows st + 1 else validRows st),
                   studentId := ''Student-'' @ showNat (index + 1),
                   department := ''General'',
                   studentSkills := []\<rparr>;
          st2 = foldl (\<lambda>s e. cellStep e s) st1 row
      in st2\<lparr>processedStudents := processedStudents st2 @
                [\<lparr>rs_id = studentId st2, rs_department = department st2,
                  rs_skills = studentSkills st2\<rparr>]\<rparr>)"

definition runRows :: "rawRow list \<Rightarrow> vars" where
  "runRows rawData =
     foldl (\<lambda>s (row, index). rowStep row index s) initVars (zip rawData [0..<length rawData])"

text \<open>
  \<^verbatim>\<open>Object.entries(skillFreq).sort((a, b) => b[1] - a[1]).slice(0, 50)\<close>: the sort of
  \<^verbatim>\<open>Array.prototype.sort\<close> is stable, here by descending count.
\<close>

definition sortedSkills :: "counters \<Rightarrow> counters" where
  "sortedSkills freq = take 50 (sort_key (\<lambda>e. - int (snd e)) freq)"

record cleaningReport =
  totalRows :: nat
  cr_validRows :: nat
  missingValuesFixed :: nat
  uniqueSkillsFound :: nat

record payload =
  report :: cleaningReport
  topSkills :: counters
  rawStudents :: "rawStudent list"

text \<open>The payload handed to \<^verbatim>\<open>onUpload\<close> (the elapsed time of the report is not modelled).\<close>

definition processAndUpload :: "rawRow list \<Rightarrow> payload" where
  "processAndUpload rawData =
     (let st = runRows rawData in
      \<lparr>report = \<lparr>totalRows = length rawData, cr_validRows = validRows st,
                  missingValuesFixed = 0, uniqueSkillsFound = length (skillFreq st)\<rparr>,
       topSkills = sortedSkills (skillFreq st),
       rawStudents = processedStudents st\<rparr>)"


section \<open>Double-precision arithmetic of the score\<close>

text \<open>
  \<^verbatim>\<open>Math.round((matchCount / totalReq) * 100)\<close> is computed on IEEE 754 doubles: the
  quotient is rounded to the nearest double (ties to even), so is the product with 100,
  and \<^verbatim>\<open>Math.round\<close> takes the nearest integer with ties towards \<open>+\<infinity>\<close>. Doubles are
  modelled by the rationals they denote; \<open>roundDouble\<close> is the rounding to 53 significant
  bits, with the fixed spacing \<open>2\<^sup>-\<^sup>1\<^sup>0\<^sup>7\<^sup>4\<close> below \<open>2\<^sup>-\<^sup>1\<^sup>0\<^sup>2\<^sup>2\<close> (magnitudes from \<open>2\<^sup>1\<^sup>0\<^sup>2\<^sup>4\<close> on,
  which overflow, do not occur for counts).
\<close>

function ilog2 :: "int \<Rightarrow> nat" where
  "ilog2 n = (if n < 2 then 0 else Suc (ilog2 (n div 2)))"
  by pat_completeness auto
termination
  by (relation "measure nat") auto

declare ilog2.simps [simp del]

definition pow2 :: "int \<Rightarrow> rat" where
  "pow2 e = (if 0 \<le> e then 2 ^ nat e else 1 / 2 ^ nat (- e))"

text \<open>For \<open>x > 0\<close>, the exponent \<open>e\<close> with \<open>2\<^sup>e \<le> x < 2\<^sup>e\<^sup>+\<^sup>1\<close>.\<close>

definition binExponent :: "rat \<Rightarrow> int" where
  "binExponent x =
     (let a = fst (quotient_of x); b = snd (quotient_of x);
          e0 = int (ilog2 a) - int (ilog2 b)
      in if pow2 e0 \<le> x then e0 else e0 - 1)"

definition roundPos :: "rat \<Rightarrow> rat" where
  "roundPos x =
     (let u = pow2 (max (binExponent x) (- 1022) - 52);
          k = x / u; n = \<lfloor>k\<rfloor>; r = k - of_int n
      in (if r < 1 / 2 \<or> (r = 1 / 2 \<and> even n) then of_int n else of_int (n + 1)) * u)"

definition roundDouble :: "rat \<Rightarrow> rat" where
  "roundDouble x = (if x = 0 then 0 else if x < 0 then - roundPos (- x) else roundPos x)"

definition mathRound :: "rat \<Rightarrow> int" where
  "mathRound x = \<lfloor>x + 1 / 2\<rfloor>"

text \<open>\<^verbatim>\<open>Math.round((matchCount / totalReq) * 100)\<close> for \<open>totalReq > 0\<close>.\<close>

definition scorePct :: "nat \<Rightarrow> nat \<Rightarrow> int" where
  "scorePct matchCount totalReq =
     mathRound (roundDouble (roundDouble (of_nat matchCount / of_nat totalReq) * 100))"


section \<open>The fuzzy matcher\<close>

text \<open>
  Both call sites decide a required skill the same way: \<^verbatim>\<open>Set.has\<close> first, then a scan of
  the lower-cased student skills that stops at the first one containing the requirement or
  contained in it.
\<close>

fun scanSkills :: "string list \<Rightarrow> string \<Rightarrow> bool" where
  "scanSkills [] req = False"
| "scanSkills (ss # rest) req =
     (if includesStr ss req \<or> includesStr req ss then True else scanSkills rest req)"

definition found :: "string list \<Rightarrow> string \<Rightarrow> bool" where
  "found skillsLower req = (if req \<in> set skillsLower then True else scanSkills skillsLower req)"

record matchAcc =
  missing :: "string list"
  matchCount :: nat

definition emptyAcc :: matchAcc where
  "emptyAcc = \<lparr>missing = [], matchCount = 0\<rparr>"

subsection \<open>Bulk path: the post-processing of \<^verbatim>\<open>analyzeSkillset\<close>\<close>

record roleDefinition =
  title :: string
  requiredSkills :: "string list"

record departmentMapping =
  dm_department :: string
  possibleRoles :: "roleDefinition list"

record studentProfile =
  sp_id :: string
  sp_department :: string
  rawSkills :: "string list"
  matchScore :: int
  missingSkills :: "string list"

text \<open>
  \<^verbatim>\<open>aiResult.departmentMappings?.find(...) || aiResult.departmentMappings?.[0]\<close>; the
  mappings are absent (\<open>None\<close>) when the service's answer has no such field.
\<close>

definition deptMatches :: "string \<Rightarrow> departmentMapping \<Rightarrow> bool" where
  "deptMatches rawDept d =
     (includesStr (toLowerCase (dm_department d)) (toLowerCase rawDept) \<or>
      includesStr (toLowerCase rawDept) (toLowerCase (dm_department d)))"

definition findDeptMap :: "departmentMapping list option \<Rightarrow> string \<Rightarrow> departmentMapping option" where
  "findDeptMap mappings rawDept =
     (case mappings of
        None \<Rightarrow> None
      | Some ms \<Rightarrow>
          (case find (deptMatches rawDept) ms of
             Some d \<Rightarrow> Some d
           | None \<Rightarrow> (case ms of [] \<Rightarrow> None | d # _ \<Rightarrow> Some d)))"

text \<open>\<^verbatim>\<open>deptMap?.possibleRoles?.[0]\<close>\<close>

definition defaultRole :: "departmentMapping option \<Rightarrow> roleDefinition option" where
  "defaultRole deptMap =
     (case deptMap of
        None \<Rightarrow> None
      | Some d \<Rightarrow> (case possibleRoles d of [] \<Rightarrow> None | r # _ \<Rightarrow> Some r))"

text \<open>\<^verbatim>\<open>new Set((defaultRole?.requiredSkills || []).map(s => s.toLowerCase()))\<close>\<close>

definition requiredSet :: "roleDefinition option \<Rightarrow> string list" where
  "requiredSet role =
     newSet (map toLowerCase (case role of None \<Rightarrow> [] | Some r \<Rightarrow> requiredSkills r))"

text \<open>The body of \<^verbatim>\<open>requiredSet.forEach\<close>.\<close>

definition bulkStep :: "string list \<Rightarrow> string \<Rightarrow> matchAcc \<Rightarrow> matchAcc" where
  "bulkStep studentSkillsLower req acc =
     (if found studentSkillsLower req then acc\<lparr>matchCount := matchCount acc + 1\<rparr>
      else acc\<lparr>missing := missing acc @ [capitalize req]\<rparr>)"

text \<open>One student: score over \<^verbatim>\<open>requiredSet.size || 1\<close>, missing skills cut to five.\<close>

definition bulkMatch :: "string list \<Rightarrow> string list \<Rightarrow> int \<times> string list" where
  "bulkMatch skills reqSet =
     (let studentSkillsLower = newSet (map toLowerCase skills);
          acc = foldl (\<lambda>a req. bulkStep studentSkillsLower req a) emptyAcc reqSet;
          totalReq = (if length reqSet = 0 then 1 else length reqSet);
          score = scorePct (matchCount acc) totalReq
      in (score, take 5 (missing acc)))"

definition studentOf :: "departmentMapping list option \<Rightarrow> rawStudent \<Rightarrow> studentProfile" where
  "studentOf mappings raw =
     (let deptMap = findDeptMap mappings (rs_department raw);
          res = bulkMatch (rs_skills raw) (requiredSet (defaultRole deptMap))
      in \<lparr>sp_id = rs_id raw, sp_department = rs_department raw, rawSkills = rs_skills raw,
          matchScore = fst res, missingSkills = snd res\<rparr>)"

record analysisResult =
  departmentMappings :: "departmentMapping list option"
  students :: "studentProfile list"
  ar_cleaningReport :: cleaningReport

text \<open>
  The result of \<^verbatim>\<open>analyzeSkillset\<close> as far as this pass builds it: the mappings as the
  service returned them, one profile per raw student, and the report of the payload.
\<close>

definition analyzeSkillset :: "payload \<Rightarrow> departmentMapping list option \<Rightarrow> analysisResult" where
  "analyzeSkillset inputData mappings =
     \<lparr>departmentMappings = mappings,
      students = map (studentOf mappings) (rawStudents inputData),
      ar_cleaningReport = report inputData\<rparr>"

subsection \<open>Ad-hoc path: the effect of the dashboard for a selected student and role\<close>

text \<open>The body of \<^verbatim>\<open>requiredSkills.forEach\<close>.\<close>

definition adhocStep :: "string list \<Rightarrow> string \<Rightarrow> matchAcc \<Rightarrow> matchAcc" where
  "adhocStep studentSkillsSet req acc =
     (let reqLower = toLowerCase req in
      if found studentSkillsSet reqLower then acc\<lparr>matchCount := matchCount acc + 1\<rparr>
      else acc\<lparr>missing := missing acc @ [req]\<rparr>)"

text \<open>The pair \<^verbatim>\<open>(matchScore, missing)\<close> stored in \<^verbatim>\<open>dynamicStats\<close>.\<close>

definition adhocMatch :: "string list \<Rightarrow> string list \<Rightarrow> int \<times> string list" where
  "adhocMatch studentRawSkills required =
     (let studentSkillsSet = newSet (map toLowerCase studentRawSkills);
          acc = foldl (\<lambda>a req. adhocStep studentSkillsSet req a) emptyAcc required;
          score = scorePct (matchCount acc) (if length required = 0 then 1 else length required)
      in (score, missing acc))"


section \<open>Reference notions for the statements\<close>

text \<open>
  Putting pieces back together with the separators between them, as the inverse of
  \<^verbatim>\<open>split\<close>.
\<close>

fun rejoin :: "string list \<Rightarrow> string \<Rightarrow> string" where
  "rejoin [] ds = []"
| "rejoin [w] ds = w"
| "rejoin (w # w' # ws) [] = w"
| "rejoin (w # w' # ws) (d # ds) = w @ d # rejoin (w' # ws) ds"

text \<open>
  The normalized tokens that one cell contributes, in order and with repetitions, written
  without the state: the cell must be truthy, its column neither an identifier nor a
  department column nor a name column, and its trimmed value longer than one character.
\<close>

definition cellSkills :: "string \<times> cell \<Rightarrow> string list" where
  "cellSkills e =
     (let valueStr = trim (toString (snd e)); keyStr = toLowerCase (fst e) in
      if truthy (snd e) \<and> \<not> isIdKey keyStr \<and> \<not> isDeptKey keyStr \<and>
         length valueStr > 1 \<and> \<not> includesStr keyStr ''name''
      then map titleCase (filter admitted (tokens valueStr)) else [])"

definition rowSkills :: "rawRow \<Rightarrow> string list" where
  "rowSkills row = concat (map cellSkills row)"

text \<open>Adding \<open>n\<close> occurrences to an entry of a counter table that may be absent.\<close>

definition bump :: "nat option \<Rightarrow> nat \<Rightarrow> nat option" where
  "bump c n = (if n = 0 then c else Some ((case c of None \<Rightarrow> 0 | Some m \<Rightarrow> m) + n))"

text \<open>
  The criterion for a case-folded required skill \<open>q\<close> against the candidate skills: the
  case-folded candidates contain \<open>q\<close>, or one of them has \<open>q\<close> as a contiguous part or is a
  contiguous part of \<open>q\<close>.
\<close>

definition satisfiedBy :: "string list \<Rightarrow> string \<Rightarrow> bool" where
  "satisfiedBy cand q \<longleftrightarrow>
     q \<in> toLowerCase ` set cand \<or> (\<exists>c \<in> toLowerCase ` set cand. sublist q c \<or> sublist c q)"

section \<open>Basic facts about the primitives\<close>

lemma startsWith_prefix: "startsWith s t \<longleftrightarrow> prefix t s"
  by (induction s t rule: startsWith.induct) auto

lemma includesStr_sublist: "includesStr s t \<longleftrightarrow> sublist t s"
  by (induction s) (auto simp: startsWith_prefix sublist_Cons_right simp del: startsWith.simps)

lemma scanSkills_iff:
  "scanSkills S req \<longleftrightarrow> (\<exists>c \<in> set S. includesStr c req \<or> includesStr req c)"
  by (induction S) auto

lemma set_setAdd: "set (setAdd x s) = insert x (set s)"
  by (auto simp: setAdd_def)

lemma set_foldl_setAdd: "set (foldl (\<lambda>s x. setAdd x s) acc xs) = set acc \<union> set xs"
  by (induction xs arbitrary: acc) (auto simp: set_setAdd)

lemma set_newSet: "set (newSet xs) = set xs"
  by (simp add: newSet_def set_foldl_setAdd)

lemma distinct_setAdd: "distinct s \<Longrightarrow> distinct (setAdd x s)"
  by (auto simp: setAdd_def)

lemma distinct_foldl_setAdd: "distinct acc \<Longrightarrow> distinct (foldl (\<lambda>s x. setAdd x s) acc xs)"
  by (induction xs arbitrary: acc) (auto simp: distinct_setAdd)

lemma distinct_newSet: "distinct (newSet xs)"
  by (simp add: newSet_def distinct_foldl_setAdd)

section \<open>Normalizing a row\<close>

text \<open>
  C3. The row \<^verbatim>\<open>{"Notes":"irrelevant"}\<close> at index 4 does not normalize to a record with an
  empty skill set: the column \<^verbatim>\<open>Notes\<close> is neither an identifier nor a department column,
  its name does not contain \<^verbatim>\<open>name\<close> and its value is longer than one character, so it
  is read as a skills column.
\<close>

theorem default_row_counterexample:
  "processedStudents (rowStep [(''Notes'', CStr ''irrelevant'')] 4 initVars) \<noteq>
     [\<lparr>rs_id = ''Student-5'', rs_department = ''General'', rs_skills = []\<rparr>]"
  by code_simp

text \<open>
  C3, as the code has it: the row \<^verbatim>\<open>{"Notes":"irrelevant"}\<close> at index 4 yields the record
  with identifier \<^verbatim>\<open>Student-5\<close>, department \<^verbatim>\<open>General\<close> and the skill set
  \<^verbatim>\<open>{"Irrelevant"}\<close>.
\<close>

theorem default_row_skills:
  "processedStudents (rowStep [(''Notes'', CStr ''irrelevant'')] 4 initVars) =
     [\<lparr>rs_id = ''Student-5'', rs_department = ''General'', rs_skills = [''Irrelevant'']\<rparr>]"
  by code_simp

section \<open>Tokenizing a skills value\<close>

lemma splitOn_nonempty: "splitOn p s \<noteq> []"
  by (induction s) (auto split: list.splits)

lemma length_splitOn: "length (splitOn p s) = Suc (length (filter p s))"
  by (induction s) (auto split: list.splits)

lemma rejoin_Cons_char: "ws \<noteq> [] \<Longrightarrow> rejoin ((c # w) # ws) ds = c # rejoin (w # ws) ds"
  by (cases ws; cases ds) auto

lemma rejoin_splitOn: "rejoin (splitOn p s) (filter p s) = s"
proof (induction s)
  case Nil
  show ?case by simp
next
  case (Cons c s)
  obtain w ws where sp: "splitOn p s = w # ws"
    using splitOn_nonempty [of p s] by (cases "splitOn p s") auto
  show ?case
  proof (cases "p c")
    case True
    with Cons sp show ?thesis by simp
  next
    case False
    with Cons sp show ?thesis by (cases ws; cases "filter p s") auto
  qed
qed

lemma splitOn_pieces: "w \<in> set (splitOn p s) \<Longrightarrow> c \<in> set w \<Longrightarrow> \<not> p c"
proof (induction s arbitrary: w)
  case Nil
  then show ?case by simp
next
  case (Cons a s)
  obtain x xs where sp: "splitOn p s = x # xs"
    using splitOn_nonempty [of p s] by (cases "splitOn p s") auto
  show ?case
  proof (cases "p a")
    case True
    with Cons sp show ?thesis by auto
  next
    case False
    with Cons.prems sp have "w = a # x \<or> w \<in> set xs" by auto
    then show ?thesis
    proof
      assume "w = a # x"
      with Cons.prems(2) have "c = a \<or> c \<in> set x" by auto
      with False Cons.IH [of x] sp show ?thesis by auto
    next
      assume "w \<in> set xs"
      with Cons.IH [of w] Cons.prems(2) sp show ?thesis by auto
    qed
  qed
qed

lemma set_trim: "set (trim s) \<subseteq> set s"
  unfolding trim_def by (metis set_dropWhileD set_rev subsetI)

lemma tokens_nth:
  "i < length (splitOn isSeparator v) \<Longrightarrow>
   tokens v ! i = filter (\<lambda>c. c \<noteq> CHR 0x27 \<and> c \<noteq> CHR 0x22) (trim (splitOn isSeparator v ! i))"
  by (simp add: tokens_def removeQuotes_def isQuote_def)

lemma tokens_chars:
  assumes "t \<in> set (tokens v)" "c \<in> set t"
  shows "c \<noteq> CHR 0x27 \<and> c \<noteq> CHR 0x22 \<and> c \<noteq> CHR '','' \<and> c \<noteq> CHR '';''"
proof -
  from assms(1) obtain w where w: "w \<in> set (splitOn isSeparator v)" and t: "t = removeQuotes (trim w)"
    by (auto simp: tokens_def)
  from assms(2) t have q: "\<not> isQuote c" and "c \<in> set (trim w)"
    by (auto simp: removeQuotes_def)
  then have "c \<in> set w" using set_trim by blast
  with w have "\<not> isSeparator c" by (rule splitOn_pieces)
  with q show ?thesis by (auto simp: isQuote_def isSeparator_def)
qed

text \<open>
  C9, as the code has it: a skills value is split at every \<^verbatim>\<open>,\<close> and \<^verbatim>\<open>;\<close> (the pieces,
  joined by the separators of the value, give the value back), each piece is trimmed and
  then loses every quote character it contains, interior ones included, so that no token
  contains a quote or a separator; a token that fails the length or the number test
  changes nothing.
\<close>

theorem tokens_delete_every_quote:
  "length (tokens v) = Suc (length (filter isSeparator v)) \<and>
   rejoin (splitOn isSeparator v) (filter isSeparator v) = v \<and>
   (\<forall>i < length (tokens v).
      tokens v ! i = filter (\<lambda>c. c \<noteq> CHR 0x27 \<and> c \<noteq> CHR 0x22) (trim (splitOn isSeparator v ! i))) \<and>
   (\<forall>t \<in> set (tokens v). \<forall>c \<in> set t.
      c \<noteq> CHR 0x27 \<and> c \<noteq> CHR 0x22 \<and> c \<noteq> CHR '','' \<and> c \<noteq> CHR '';'') \<and>
   (\<forall>t st. \<not> (length t > 1 \<and> notNumber t) \<longrightarrow> tokenStep t st = st)"
proof (intro conjI)
  show "length (tokens v) = Suc (length (filter isSeparator v))"
    by (simp add: tokens_def length_splitOn)
  show "rejoin (splitOn isSeparator v) (filter isSeparator v) = v"
    by (rule rejoin_splitOn)
  show "\<forall>i < length (tokens v).
      tokens v ! i = filter (\<lambda>c. c \<noteq> CHR 0x27 \<and> c \<noteq> CHR 0x22) (trim (splitOn isSeparator v ! i))"
    using tokens_nth by (simp add: tokens_def)
  show "\<forall>t \<in> set (tokens v). \<forall>c \<in> set t.
      c \<noteq> CHR 0x27 \<and> c \<noteq> CHR 0x22 \<and> c \<noteq> CHR '','' \<and> c \<noteq> CHR '';''"
    using tokens_chars by blast
  show "\<forall>t st. \<not> (length t > 1 \<and> notNumber t) \<longrightarrow> tokenStep t st = st"
    by (auto simp: tokenStep_def admitted_def)
qed

theorem tokens_delete_every_quote_witness:
  "1 < length (tokens ''a;b'c'') \<and> tokens ''a;b'c'' ! 1 = ''bc''"
proof -
  note th = tokens_delete_every_quote [of "''a;b'c''"]
  have len: "1 < length (tokens ''a;b'c'')" by code_simp
  have rhs: "filter (\<lambda>c. c \<noteq> CHR 0x27 \<and> c \<noteq> CHR 0x22) (trim (splitOn isSeparator ''a;b'c'' ! 1))
               = ''bc''" by code_simp
  have "\<forall>i < length (tokens ''a;b'c'').
      tokens ''a;b'c'' ! i =
        filter (\<lambda>c. c \<noteq> CHR 0x27 \<and> c \<noteq> CHR 0x22) (trim (splitOn isSeparator ''a;b'c'' ! i))"
    by (rule th [THEN conjunct2, THEN conjunct2, THEN conjunct1])
  then have "1 < length (tokens ''a;b'c'') \<longrightarrow> tokens ''a;b'c'' ! 1 =
        filter (\<lambda>c. c \<noteq> CHR 0x27 \<and> c \<noteq> CHR 0x22) (trim (splitOn isSeparator ''a;b'c'' ! 1))"
    by (rule spec)
  from this len have "tokens ''a;b'c'' ! 1 =
        filter (\<lambda>c. c \<noteq> CHR 0x27 \<and> c \<noteq> CHR 0x22) (trim (splitOn isSeparator ''a;b'c'' ! 1))"
    by (rule mp)
  from this rhs have "tokens ''a;b'c'' ! 1 = ''bc''" by (rule trans)
  with len show ?thesis by (rule conjI)
qed

text \<open>
  C9. Quote characters in the interior of a token are not left unchanged: the value
  \<^verbatim>\<open>a;b'c\<close> does not give the tokens \<^verbatim>\<open>a\<close> and \<^verbatim>\<open>b'c\<close>.
\<close>

theorem interior_quote_counterexample:
  "tokens ''a;b'c'' \<noteq> [''a'', ''b'c'']"
  by code_simp

section \<open>Falsy cells\<close>

lemma cellStep_falsy: "\<not> truthy v \<Longrightarrow> cellStep (k, v) st = st"
  by (simp add: cellStep_def)

lemma truthy_cases:
  "truthy v \<longleftrightarrow> v \<noteq> CStr [] \<and> v \<noteq> CNum 0 \<and> v \<noteq> CBool False \<and> v \<noteq> CNull \<and> v \<noteq> CUndefined"
  by (cases v) auto

lemma tokenStep_keeps:
  "studentId (tokenStep t st) = studentId st \<and> department (tokenStep t st) = department st \<and>
   processedStudents (tokenStep t st) = processedStudents st \<and> validRows (tokenStep t st) = validRows st"
  by (simp add: tokenStep_def Let_def)

lemma tokenSteps_keep:
  "studentId (foldl (\<lambda>s t. tokenStep t s) st ts) = studentId st \<and>
   department (foldl (\<lambda>s t. tokenStep t s) st ts) = department st \<and>
   processedStudents (foldl (\<lambda>s t. tokenStep t s) st ts) = processedStudents st \<and>
   validRows (foldl (\<lambda>s t. tokenStep t s) st ts) = validRows st"
  by (induction ts arbitrary: st) (simp_all add: tokenStep_keeps)

lemma cellStep_studentId:
  "studentId (cellStep e st) =
     (if truthy (snd e) \<and> isIdKey (toLowerCase (fst e)) then trim (toString (snd e)) else studentId st)"
  by (simp add: cellStep_def Let_def tokenSteps_keep)

lemma cellStep_department:
  "department (cellStep e st) =
     (if truthy (snd e) \<and> \<not> isIdKey (toLowerCase (fst e)) \<and> isDeptKey (toLowerCase (fst e))
      then trim (toString (snd e)) else department st)"
  by (simp add: cellStep_def Let_def tokenSteps_keep)

lemma cells_studentId:
  "\<forall>e \<in> set row. isIdKey (toLowerCase (fst e)) \<longrightarrow> \<not> truthy (snd e) \<Longrightarrow>
   studentId (foldl (\<lambda>s e. cellStep e s) st row) = studentId st"
  by (induction row arbitrary: st) (auto simp: cellStep_studentId)

lemma cells_department:
  "\<forall>e \<in> set row. isDeptKey (toLowerCase (fst e)) \<longrightarrow> \<not> truthy (snd e) \<Longrightarrow>
   department (foldl (\<lambda>s e. cellStep e s) st row) = department st"
  by (induction row arbitrary: st) (auto simp: cellStep_department)

lemma cells_all_falsy:
  "\<forall>e \<in> set row. \<not> truthy (snd e) \<Longrightarrow> foldl (\<lambda>s e. cellStep e s) st row = st"
  by (induction row arbitrary: st) (auto simp: cellStep_def)

lemma rowStep_last:
  "last (processedStudents (rowStep row i st)) =
     (let st2 = foldl (\<lambda>s e. cellStep e s)
                  (st\<lparr>validRows := (if length row > 0 then validRows st + 1 else validRows st),
                      studentId := ''Student-'' @ showNat (i + 1),
                      department := ''General'', studentSkills := []\<rparr>) row
      in \<lparr>rs_id = studentId st2, rs_department = department st2, rs_skills = studentSkills st2\<rparr>)"
  by (simp add: rowStep_def Let_def)

text \<open>
  C10. A cell is falsy exactly when it is the empty string, the number 0, \<^verbatim>\<open>false\<close>,
  \<^verbatim>\<open>null\<close> or \<^verbatim>\<open>undefined\<close>, and a falsy cell is skipped before its column is
  classified: it leaves every variable as it was. So when every cell of an identifier
  column is falsy the record keeps the positional identifier, when every cell of a
  department column is falsy it keeps \<^verbatim>\<open>General\<close>, and a row of falsy cells adds no skill
  and counts nothing.
\<close>

theorem falsy_cells_skipped:
  "(truthy v \<longleftrightarrow> v \<noteq> CStr [] \<and> v \<noteq> CNum 0 \<and> v \<noteq> CBool False \<and> v \<noteq> CNull \<and> v \<noteq> CUndefined) \<and>
   (\<not> truthy v \<longrightarrow> cellStep (k, v) st = st) \<and>
   ((\<forall>e \<in> set row. isIdKey (toLowerCase (fst e)) \<longrightarrow> \<not> truthy (snd e)) \<longrightarrow>
      rs_id (last (processedStudents (rowStep row i st))) = ''Student-'' @ showNat (i + 1)) \<and>
   ((\<forall>e \<in> set row. isDeptKey (toLowerCase (fst e)) \<longrightarrow> \<not> truthy (snd e)) \<longrightarrow>
      rs_department (last (processedStudents (rowStep row i st))) = ''General'') \<and>
   ((\<forall>e \<in> set row. \<not> truthy (snd e)) \<longrightarrow>
      rs_skills (last (processedStudents (rowStep row i st))) = [] \<and>
      skillFreq (rowStep row i st) = skillFreq st)"
proof (intro conjI impI)
  show "truthy v \<longleftrightarrow> v \<noteq> CStr [] \<and> v \<noteq> CNum 0 \<and> v \<noteq> CBool False \<and> v \<noteq> CNull \<and> v \<noteq> CUndefined"
    by (rule truthy_cases)
next
  assume "\<not> truthy v"
  then show "cellStep (k, v) st = st" by (rule cellStep_falsy)
next
  assume "\<forall>e \<in> set row. isIdKey (toLowerCase (fst e)) \<longrightarrow> \<not> truthy (snd e)"
  then show "rs_id (last (processedStudents (rowStep row i st))) = ''Student-'' @ showNat (i + 1)"
    by (simp add: rowStep_last Let_def cells_studentId del: foldl_Cons)
next
  assume "\<forall>e \<in> set row. isDeptKey (toLowerCase (fst e)) \<longrightarrow> \<not> truthy (snd e)"
  then show "rs_department (last (processedStudents (rowStep row i st))) = ''General''"
    by (simp add: rowStep_last Let_def cells_department)
next
  assume a: "\<forall>e \<in> set row. \<not> truthy (snd e)"
  then show "rs_skills (last (processedStudents (rowStep row i st))) = []"
    by (simp add: rowStep_last Let_def cells_all_falsy)
  from a show "skillFreq (rowStep row i st) = skillFreq st"
    by (simp add: rowStep_def Let_def cells_all_falsy)
qed

theorem falsy_cells_skipped_witness:
  "last (processedStudents
      (rowStep [(''Student ID'', CStr []), (''Dept'', CNum 0), (''Skills'', CNull)] 0 initVars))
     = \<lparr>rs_id = ''Student-1'', rs_department = ''General'', rs_skills = []\<rparr>"
proof -
  let ?row = "[(''Student ID'', CStr []), (''Dept'', CNum 0), (''Skills'', CNull)]"
  note th = falsy_cells_skipped [of CNull "''Skills''" initVars ?row 0]
  have f: "\<forall>e \<in> set ?row. \<not> truthy (snd e)" by simp
  then have f1: "\<forall>e \<in> set ?row. isIdKey (toLowerCase (fst e)) \<longrightarrow> \<not> truthy (snd e)"
    and f2: "\<forall>e \<in> set ?row. isDeptKey (toLowerCase (fst e)) \<longrightarrow> \<not> truthy (snd e)"
    by blast+
  have n: "''Student-'' @ showNat (0 + 1) = ''Student-1''" by code_simp
  from th f1 have a: "rs_id (last (processedStudents (rowStep ?row 0 initVars))) = ''Student-'' @ showNat (0 + 1)"
    by blast
  from th f2 have b: "rs_department (last (processedStudents (rowStep ?row 0 initVars))) = ''General''"
    by blast
  from th f have c: "rs_skills (last (processedStudents (rowStep ?row 0 initVars))) = []"
    by blast
  from a b c n show ?thesis
    by (cases "last (processedStudents (rowStep ?row 0 initVars))") simp
qed

section \<open>Satisfied and missing skills\<close>

lemma found_iff:
  "found S req \<longleftrightarrow> req \<in> set S \<or> (\<exists>c \<in> set S. sublist req c \<or> sublist c req)"
  by (auto simp: found_def scanSkills_iff includesStr_sublist)

lemma adhocStep_count:
  "matchCount (adhocStep S r acc) = (if found S (toLowerCase r) then Suc (matchCount acc) else matchCount acc)"
  by (simp add: adhocStep_def Let_def)

lemma adhocStep_missing:
  "missing (adhocStep S r acc) = (if found S (toLowerCase r) then missing acc else missing acc @ [r])"
  by (simp add: adhocStep_def Let_def)

lemma bulkStep_count:
  "matchCount (bulkStep S req acc) = (if found S req then Suc (matchCount acc) else matchCount acc)"
  by (simp add: bulkStep_def)

lemma bulkStep_missing:
  "missing (bulkStep S req acc) = (if found S req then missing acc else missing acc @ [capitalize req])"
  by (simp add: bulkStep_def)

lemma found_react: "found (newSet (map toLowerCase [''react native''])) (toLowerCase ''React'')"
  by code_simp

lemma found_js: "\<not> found (newSet (map toLowerCase [''javascript''])) (toLowerCase ''JS'')"
  by code_simp

lemma newSet_first_occurrences_aux:
  "distinct acc \<Longrightarrow> foldl (\<lambda>s x. setAdd x s) acc xs = rev (remdups (rev (acc @ xs)))"
proof (induction xs arbitrary: acc)
  case Nil
  then show ?case by (simp add: distinct_remdups_id)
next
  case (Cons x xs)
  have d: "distinct (setAdd x acc)" using Cons.prems by (rule distinct_setAdd)
  have "remdups (rev (setAdd x acc @ xs)) = remdups (rev (acc @ x # xs))"
  proof (cases "x \<in> set acc")
    case True
    then have "remdups (x # rev acc) = remdups (rev acc)" by simp
    then have "remdups (rev xs @ remdups (x # rev acc)) = remdups (rev xs @ remdups (rev acc))"
      by simp
    then have "remdups (rev xs @ x # rev acc) = remdups (rev xs @ rev acc)"
      by (simp only: remdups_append2)
    with True show ?thesis by (simp add: setAdd_def)
  next
    case False
    then show ?thesis by (simp add: setAdd_def)
  qed
  with Cons.IH [OF d] show ?case by simp
qed

lemma newSet_first_occurrences: "newSet xs = rev (remdups (rev xs))"
  using newSet_first_occurrences_aux [of "[]" xs] by (simp add: newSet_def)

lemma adhoc_fold:
  "foldl (\<lambda>a req. adhocStep S req a) acc reqs =
     \<lparr>missing = missing acc @ filter (\<lambda>r. \<not> found S (toLowerCase r)) reqs,
      matchCount = matchCount acc + length (filter (\<lambda>r. found S (toLowerCase r)) reqs)\<rparr>"
  by (induction reqs arbitrary: acc) (simp_all add: adhocStep_def Let_def)

lemma bulk_fold:
  "foldl (\<lambda>a req. bulkStep S req a) acc reqs =
     \<lparr>missing = missing acc @ map capitalize (filter (\<lambda>r. \<not> found S r) reqs),
      matchCount = matchCount acc + length (filter (found S) reqs)\<rparr>"
  by (induction reqs arbitrary: acc) (simp_all add: bulkStep_def)

text \<open>
  C4, as the code has it: the ad-hoc path returns the unmatched required skills exactly as
  they are written in the role (no capitalization), in the order of the list and without
  a cap; the bulk path lower-cases the required skills, keeps the first occurrence of each,
  and returns the unmatched ones with their first letter upper-cased, in that order, cut
  to five entries.
\<close>

theorem missing_skills_of_both_paths:
  "snd (adhocMatch cand required) =
     filter (\<lambda>r. \<not> found (newSet (map toLowerCase cand)) (toLowerCase r)) required \<and>
   snd (bulkMatch cand (requiredSet (Some role))) =
     take 5 (map capitalize
       (filter (\<lambda>r. \<not> found (newSet (map toLowerCase cand)) r)
          (rev (remdups (rev (map toLowerCase (requiredSkills role)))))))"
  by (simp add: adhocMatch_def bulkMatch_def Let_def adhoc_fold bulk_fold emptyAcc_def
      requiredSet_def newSet_first_occurrences [of "map toLowerCase (requiredSkills role)"])

text \<open>
  C4. The missing skills are not capitalized with their casing preserved at both call
  sites: the ad-hoc path returns \<^verbatim>\<open>python\<close> as it is, and the bulk path returns
  \<^verbatim>\<open>Sql\<close> for the required skill \<^verbatim>\<open>SQL\<close>.
\<close>

theorem missing_skills_counterexample:
  "snd (adhocMatch [] [''python'']) \<noteq> [''Python''] \<and>
   snd (bulkMatch [] (requiredSet (Some \<lparr>title = ''Analyst'', requiredSkills = [''SQL'']\<rparr>))) \<noteq> [''SQL'']"
  by code_simp

section \<open>The report without a taxonomy\<close>

lemma mathRound_zero: "mathRound 0 = 0"
  unfolding mathRound_def by (simp add: floor_eq_iff)

lemma scorePct_zero: "scorePct 0 t = 0"
  by (simp add: scorePct_def roundDouble_def mathRound_zero)

lemma findDeptMap_none: "mappings = None \<or> mappings = Some [] \<Longrightarrow> findDeptMap mappings d = None"
  by (auto simp: findDeptMap_def)

lemma bulkMatch_no_requirements: "bulkMatch skills [] = (0, [])"
  by (simp add: bulkMatch_def emptyAcc_def scorePct_zero)

text \<open>
  C2, as the code has it: when the taxonomy has no department mapping (the field is absent
  or the list is empty), the report is still built: it carries the cleaning statistics of
  the payload and one profile per record with the record's raw skill set, and every
  profile gets the numeric match score 0 and an empty list of missing skills.
\<close>

theorem no_taxonomy_scores_zero:
  "mappings = None \<or> mappings = Some [] \<Longrightarrow>
   analyzeSkillset inputData mappings =
     \<lparr>departmentMappings = mappings,
      students = map (\<lambda>raw. \<lparr>sp_id = rs_id raw, sp_department = rs_department raw,
                              rawSkills = rs_skills raw, matchScore = 0, missingSkills = []\<rparr>)
                   (rawStudents inputData),
      ar_cleaningReport = report inputData\<rparr>"
  by (simp add: analyzeSkillset_def studentOf_def findDeptMap_none defaultRole_def requiredSet_def
      newSet_def bulkMatch_no_requirements)

theorem no_taxonomy_scores_zero_witness:
  "students (analyzeSkillset (processAndUpload [[(''Skills'', CStr ''Python'')]]) None) =
     [\<lparr>sp_id = ''Student-1'', sp_department = ''General'', rawSkills = [''Python''],
       matchScore = 0, missingSkills = []\<rparr>]"
proof -
  have p: "rawStudents (processAndUpload [[(''Skills'', CStr ''Python'')]]) =
      [\<lparr>rs_id = ''Student-1'', rs_department = ''General'', rs_skills = [''Python'']\<rparr>]"
    by code_simp
  have "None = None \<or> None = Some ([] :: departmentMapping list)" by simp
  from no_taxonomy_scores_zero [OF this, of "processAndUpload [[(''Skills'', CStr ''Python'')]]"]
  show ?thesis by (simp add: p)
qed

text \<open>
  C2. Without any department mapping the match score is not omitted: the profile of the
  record carries the number 0.
\<close>

theorem no_taxonomy_counterexample:
  "map matchScore (students (analyzeSkillset (processAndUpload [[(''Skills'', CStr ''Python'')]]) None)) = [0]"
  by code_simp

section \<open>The skill-frequency table\<close>

lemma map_of_objSet: "map_of (objSet k v obj) k' = (if k' = k then Some v else map_of obj k')"
  by (induction obj) auto

lemma objGet_objIncr:
  "k \<noteq> ''__proto__'' \<Longrightarrow> objGet (objIncr obj t) k = bump (objGet obj k) (if t = k then 1 else 0)"
  by (auto simp: objIncr_def objGet_def map_of_objSet bump_def)

lemma bump_bump: "bump (bump c a) b = bump c (a + b)"
  by (auto simp: bump_def split: option.splits)

lemma bump_zero: "bump c 0 = c"
  by (simp add: bump_def)

lemma freq_tokenStep:
  "k \<noteq> ''__proto__'' \<Longrightarrow>
   objGet (skillFreq (tokenStep t st)) k =
     bump (objGet (skillFreq st) k) (count_list (map titleCase (filter admitted [t])) k)"
  by (simp add: tokenStep_def Let_def objGet_objIncr bump_zero)

lemma freq_tokenSteps:
  "k \<noteq> ''__proto__'' \<Longrightarrow>
   objGet (skillFreq (foldl (\<lambda>s t. tokenStep t s) st ts)) k =
     bump (objGet (skillFreq st) k) (count_list (map titleCase (filter admitted ts)) k)"
proof (induction ts arbitrary: st)
  case Nil
  show ?case by (simp add: bump_zero)
next
  case (Cons t ts)
  show ?case
    using Cons.IH [OF Cons.prems, of "tokenStep t st"] freq_tokenStep [OF Cons.prems, of t st]
    by (simp add: bump_bump)
qed

lemma freq_cellStep:
  "k \<noteq> ''__proto__'' \<Longrightarrow>
   objGet (skillFreq (cellStep e st)) k = bump (objGet (skillFreq st) k) (count_list (cellSkills e) k)"
  by (simp add: cellStep_def cellSkills_def Let_def freq_tokenSteps bump_zero)

lemma count_list_append': "count_list (xs @ ys) k = count_list xs k + count_list ys k"
  by (induction xs) auto

lemma freq_cellSteps:
  "k \<noteq> ''__proto__'' \<Longrightarrow>
   objGet (skillFreq (foldl (\<lambda>s e. cellStep e s) st row)) k =
     bump (objGet (skillFreq st) k) (count_list (rowSkills row) k)"
proof (induction row arbitrary: st)
  case Nil
  show ?case by (simp add: bump_zero rowSkills_def)
next
  case (Cons e row)
  show ?case
    using Cons.IH [OF Cons.prems, of "cellStep e st"] freq_cellStep [OF Cons.prems, of e st]
    by (simp add: bump_bump rowSkills_def count_list_append')
qed

lemma freq_rowStep:
  "k \<noteq> ''__proto__'' \<Longrightarrow>
   objGet (skillFreq (rowStep row i st)) k = bump (objGet (skillFreq st) k) (count_list (rowSkills row) k)"
  by (simp add: rowStep_def Let_def freq_cellSteps)

lemma freq_rowSteps:
  "k \<noteq> ''__proto__'' \<Longrightarrow>
   objGet (skillFreq (foldl (\<lambda>s (row, index). rowStep row index s) st ps)) k =
     bump (objGet (skillFreq st) k) (count_list (concat (map rowSkills (map fst ps))) k)"
proof (induction ps arbitrary: st)
  case Nil
  show ?case by (simp add: bump_zero)
next
  case (Cons p ps)
  obtain row i where p: "p = (row, i)" by (cases p)
  show ?case
    using Cons.IH [OF Cons.prems, of "rowStep row i st"] freq_rowStep [OF Cons.prems, of row i st]
    by (simp add: p bump_bump count_list_append')
qed

lemma map_fst_zip_upt: "map fst (zip xs [0..<length xs]) = xs"
  by (simp add: map_fst_zip)

lemma freq_runRows:
  "k \<noteq> ''__proto__'' \<Longrightarrow>
   objGet (skillFreq (runRows rows)) k = bump None (count_list (concat (map rowSkills rows)) k)"
  using freq_rowSteps [of k initVars "zip rows [0..<length rows]"]
  by (simp add: runRows_def map_fst_zip_upt initVars_def objGet_def)

lemma keys_objSet: "map fst (objSet k v obj) = setAdd k (map fst obj)"
  by (induction obj) (force simp: setAdd_def)+

lemma keys_objIncr:
  "map fst (objIncr obj t) = foldl (\<lambda>s x. setAdd x s) (map fst obj) (filter (\<lambda>k. k \<noteq> ''__proto__'') [t])"
  by (simp add: objIncr_def keys_objSet)

lemma keys_tokenSteps:
  "map fst (skillFreq (foldl (\<lambda>s t. tokenStep t s) st ts)) =
     foldl (\<lambda>s x. setAdd x s) (map fst (skillFreq st))
       (filter (\<lambda>k. k \<noteq> ''__proto__'') (map titleCase (filter admitted ts)))"
  by (induction ts arbitrary: st) (simp_all add: tokenStep_def Let_def keys_objIncr)

lemma keys_cellStep:
  "map fst (skillFreq (cellStep e st)) =
     foldl (\<lambda>s x. setAdd x s) (map fst (skillFreq st)) (filter (\<lambda>k. k \<noteq> ''__proto__'') (cellSkills e))"
  by (simp add: cellStep_def cellSkills_def Let_def keys_tokenSteps)

lemma keys_cellSteps:
  "map fst (skillFreq (foldl (\<lambda>s e. cellStep e s) st row)) =
     foldl (\<lambda>s x. setAdd x s) (map fst (skillFreq st)) (filter (\<lambda>k. k \<noteq> ''__proto__'') (rowSkills row))"
  by (induction row arbitrary: st) (simp_all add: rowSkills_def keys_cellStep)

lemma keys_rowStep:
  "map fst (skillFreq (rowStep row i st)) =
     foldl (\<lambda>s x. setAdd x s) (map fst (skillFreq st)) (filter (\<lambda>k. k \<noteq> ''__proto__'') (rowSkills row))"
  by (simp add: rowStep_def Let_def keys_cellSteps)

lemma keys_rowSteps:
  "map fst (skillFreq (foldl (\<lambda>s (row, index). rowStep row index s) st ps)) =
     foldl (\<lambda>s x. setAdd x s) (map fst (skillFreq st))
       (filter (\<lambda>k. k \<noteq> ''__proto__'') (concat (map rowSkills (map fst ps))))"
  by (induction ps arbitrary: st) (simp_all add: keys_rowStep split: prod.splits)

lemma keys_runRows:
  "map fst (skillFreq (runRows rows)) =
     newSet (filter (\<lambda>k. k \<noteq> ''__proto__'') (concat (map rowSkills rows)))"
  using keys_rowSteps [of initVars "zip rows [0..<length rows]"]
  by (simp add: runRows_def map_fst_zip_upt initVars_def newSet_def)

lemma skills_tokenSteps:
  "studentSkills (foldl (\<lambda>s t. tokenStep t s) st ts) =
     foldl (\<lambda>s x. setAdd x s) (studentSkills st) (map titleCase (filter admitted ts))"
  by (induction ts arbitrary: st) (simp_all add: tokenStep_def Let_def)

lemma skills_cellStep:
  "studentSkills (cellStep e st) = foldl (\<lambda>s x. setAdd x s) (studentSkills st) (cellSkills e)"
  by (simp add: cellStep_def cellSkills_def Let_def skills_tokenSteps)

lemma skills_cellSteps:
  "studentSkills (foldl (\<lambda>s e. cellStep e s) st row) =
     foldl (\<lambda>s x. setAdd x s) (studentSkills st) (rowSkills row)"
  by (induction row arbitrary: st) (simp_all add: rowSkills_def skills_cellStep)

lemma cellStep_students: "processedStudents (cellStep e st) = processedStudents st"
  by (simp add: cellStep_def Let_def tokenSteps_keep)

lemma cellSteps_students: "processedStudents (foldl (\<lambda>s e. cellStep e s) st row) = processedStudents st"
  by (induction row arbitrary: st) (simp_all add: cellStep_students)

lemma students_rowStep:
  "map rs_skills (processedStudents (rowStep row i st)) =
     map rs_skills (processedStudents st) @ [newSet (rowSkills row)]"
  by (simp add: rowStep_def Let_def skills_cellSteps cellSteps_students newSet_def)

lemma students_rowSteps:
  "map rs_skills (processedStudents (foldl (\<lambda>s (row, index). rowStep row index s) st ps)) =
     map rs_skills (processedStudents st) @ map (\<lambda>row. newSet (rowSkills row)) (map fst ps)"
  by (induction ps arbitrary: st) (simp_all add: students_rowStep split: prod.splits)

lemma students_runRows:
  "map rs_skills (processedStudents (runRows rows)) = map (\<lambda>row. newSet (rowSkills row)) rows"
  using students_rowSteps [of initVars "zip rows [0..<length rows]"]
  by (simp add: runRows_def map_fst_zip_upt initVars_def)

text \<open>
  C1, as the code has it: for every skill \<open>S\<close> other than the key \<^verbatim>\<open>__proto__\<close> (which a
  plain object never stores as a counter), the table holds no entry when no admitted token
  normalizes to \<open>S\<close>, and otherwise the number of admitted token occurrences, over all
  cells of all rows, that normalize to \<open>S\<close>. Each record's skill set is the set of the
  distinct tokens of its row, so a row that lists a skill twice adds 2 to its count.
\<close>

theorem skill_count_is_token_count:
  "(k \<noteq> ''__proto__'' \<longrightarrow>
      objGet (skillFreq (runRows rows)) k =
        (if count_list (concat (map rowSkills rows)) k = 0 then None
         else Some (count_list (concat (map rowSkills rows)) k))) \<and>
   map rs_skills (processedStudents (runRows rows)) = map (\<lambda>row. newSet (rowSkills row)) rows"
  by (simp add: freq_runRows bump_def students_runRows)

theorem skill_count_is_token_count_witness:
  "objGet (skillFreq (runRows [[(''Skills'', CStr ''Python, python'')]])) ''Python'' = Some 2"
proof -
  have ne: "''Python'' \<noteq> ''__proto__''" by simp
  have c: "count_list (concat (map rowSkills [[(''Skills'', CStr ''Python, python'')]])) ''Python'' = 2"
    by code_simp
  from skill_count_is_token_count [of "''Python''" "[[(''Skills'', CStr ''Python, python'')]]"] ne
  have "objGet (skillFreq (runRows [[(''Skills'', CStr ''Python, python'')]])) ''Python'' =
        (if count_list (concat (map rowSkills [[(''Skills'', CStr ''Python, python'')]])) ''Python'' = 0
         then None
         else Some (count_list (concat (map rowSkills [[(''Skills'', CStr ''Python, python'')]])) ''Python''))"
    by blast
  then show ?thesis unfolding c by simp
qed

text \<open>
  C1. The count is not the number of records whose skill set contains the skill: the single
  row \<^verbatim>\<open>{"Skills": "Python, python"}\<close> gives \<^verbatim>\<open>Python\<close> the count 2 with one record.
\<close>

theorem per_record_count_counterexample:
  "objGet (skillFreq (runRows [[(''Skills'', CStr ''Python, python'')]])) ''Python'' = Some 2 \<and>
   length (filter (\<lambda>r. ''Python'' \<in> set (rs_skills r))
             (processedStudents (runRows [[(''Skills'', CStr ''Python, python'')]]))) = 1"
  by code_simp

section \<open>The ranking of the skills\<close>

lemma sortedSkills_length: "length (sortedSkills T) = min 50 (length T)"
  by (simp add: sortedSkills_def min.commute)

lemma sortedSkills_sorted: "sorted_wrt (\<lambda>a b. snd b \<le> snd a) (sortedSkills T)"
proof -
  have "sorted (map (\<lambda>e. - int (snd e)) (sort_key (\<lambda>e. - int (snd e)) T))"
    by (rule sorted_sort_key)
  then have "sorted_wrt (\<lambda>a b. snd b \<le> snd a) (sort_key (\<lambda>e. - int (snd e)) T)"
    by (simp add: sorted_map)
  then show ?thesis
    unfolding sortedSkills_def by (rule sorted_wrt_take)
qed

lemma sortedSkills_rest:
  "\<exists>rest. mset (sortedSkills T @ rest) = mset T \<and>
          (\<forall>a \<in> set (sortedSkills T). \<forall>b \<in> set rest. snd b \<le> snd a)"
proof -
  let ?s = "sort_key (\<lambda>e. - int (snd e)) T"
  have "sorted (map (\<lambda>e. - int (snd e)) ?s)" by (rule sorted_sort_key)
  then have "sorted_wrt (\<lambda>a b. snd b \<le> snd a) (take 50 ?s @ drop 50 ?s)"
    by (simp add: sorted_map)
  then have "\<forall>a \<in> set (take 50 ?s). \<forall>b \<in> set (drop 50 ?s). snd b \<le> snd a"
    unfolding sorted_wrt_append by blast
  moreover have "mset (take 50 ?s @ drop 50 ?s) = mset T" by simp
  ultimately show ?thesis unfolding sortedSkills_def by blast
qed

lemma sortedSkills_ties:
  "prefix (filter (\<lambda>e. snd e = c) (sortedSkills T)) (filter (\<lambda>e. snd e = c) T)"
proof -
  let ?s = "sort_key (\<lambda>e. - int (snd e)) T"
  have "filter (\<lambda>e. - int (snd e) = - int c) ?s = filter (\<lambda>e. - int (snd e) = - int c) T"
    by (rule sort_key_stable)
  then have st: "filter (\<lambda>e. snd e = c) ?s = filter (\<lambda>e. snd e = c) T" by simp
  have "filter (\<lambda>e. snd e = c) ?s =
        filter (\<lambda>e. snd e = c) (take 50 ?s) @ filter (\<lambda>e. snd e = c) (drop 50 ?s)"
    by (metis append_take_drop_id filter_append)
  then have "prefix (filter (\<lambda>e. snd e = c) (take 50 ?s)) (filter (\<lambda>e. snd e = c) ?s)"
    by (metis prefixI)
  then show ?thesis unfolding sortedSkills_def st .
qed

text \<open>
  C8. \<^verbatim>\<open>topSkills\<close> is a function of the rows, so it is the same on every run. It holds
  the first 50 entries (all of them when there are fewer) of the table sorted by descending
  count: the counts descend, the entries left out count no more than any entry kept, and
  for every count the entries with that count come in the order of the table, the ones
  cut off being the last. The order of the table is the order in which the skills were
  first inserted.
\<close>

theorem top_skills_ranking:
  "length (topSkills (processAndUpload rows)) = min 50 (length (skillFreq (runRows rows))) \<and>
   sorted_wrt (\<lambda>a b. snd b \<le> snd a) (topSkills (processAndUpload rows)) \<and>
   (\<exists>rest. mset (topSkills (processAndUpload rows) @ rest) = mset (skillFreq (runRows rows)) \<and>
           (\<forall>a \<in> set (topSkills (processAndUpload rows)). \<forall>b \<in> set rest. snd b \<le> snd a)) \<and>
   (\<forall>c. prefix (filter (\<lambda>e. snd e = c) (topSkills (processAndUpload rows)))
               (filter (\<lambda>e. snd e = c) (skillFreq (runRows rows)))) \<and>
   map fst (skillFreq (runRows rows)) =
     rev (remdups (rev (filter (\<lambda>k. k \<noteq> ''__proto__'') (concat (map rowSkills rows)))))"
proof -
  have t: "topSkills (processAndUpload rows) = sortedSkills (skillFreq (runRows rows))"
    by (simp add: processAndUpload_def Let_def)
  show ?thesis
    unfolding t
    using sortedSkills_length sortedSkills_sorted sortedSkills_rest sortedSkills_ties
      keys_runRows [of rows, unfolded newSet_first_occurrences]
    by blast
qed

theorem top_skills_ranking_witness:
  "topSkills (processAndUpload
      [[(''Skills'', CStr ''go, rust'')], [(''Skills'', CStr ''sql, rust'')]]) =
     [(''Rust'', 2), (''Go'', 1), (''Sql'', 1)] \<and>
   prefix (filter (\<lambda>e. snd e = 1) (topSkills (processAndUpload
      [[(''Skills'', CStr ''go, rust'')], [(''Skills'', CStr ''sql, rust'')]])))
     [(''Go'', 1), (''Sql'', 1)]"
proof -
  let ?rows = "[[(''Skills'', CStr ''go, rust'')], [(''Skills'', CStr ''sql, rust'')]]"
  have v: "topSkills (processAndUpload ?rows) = [(''Rust'', 2), (''Go'', 1), (''Sql'', 1)]"
    by code_simp
  have f: "filter (\<lambda>e. snd e = 1) (skillFreq (runRows ?rows)) = [(''Go'', 1), (''Sql'', 1)]"
    by code_simp
  have "\<forall>c. prefix (filter (\<lambda>e. snd e = c) (topSkills (processAndUpload ?rows)))
               (filter (\<lambda>e. snd e = c) (skillFreq (runRows ?rows)))"
    by (rule top_skills_ranking [of ?rows, THEN conjunct2, THEN conjunct2, THEN conjunct2, THEN conjunct1])
  then have "prefix (filter (\<lambda>e. snd e = 1) (topSkills (processAndUpload ?rows)))
               (filter (\<lambda>e. snd e = 1) (skillFreq (runRows ?rows)))"
    by (rule spec)
  then have "prefix (filter (\<lambda>e. snd e = 1) (topSkills (processAndUpload ?rows))) [(''Go'', 1), (''Sql'', 1)]"
    unfolding f .
  with v show ?thesis by (rule conjI)
qed

section \<open>The tokens of a skill set\<close>

text \<open>
  Every token of a record's skill set is longer than one character and is its own title
  case: the first character upper-cased, the rest lower-cased.
\<close>

lemma toLowerChar_idem: "toLowerChar (toLowerChar c) = toLowerChar c"
  by (auto simp: toLowerChar_def isUpperLetter_def Let_def)

lemma toUpperChar_idem: "toUpperChar (toUpperChar c) = toUpperChar c"
  by (auto simp: toUpperChar_def isLowerLetter_def Let_def)

lemma titleCase_idem: "titleCase (titleCase t) = titleCase t"
  by (cases t) (simp_all add: titleCase_def toUpperCase_def toLowerCase_def toLowerChar_idem toUpperChar_idem)

lemma length_titleCase: "length (titleCase t) = length t"
  by (cases t) (simp_all add: titleCase_def toUpperCase_def toLowerCase_def)

lemma cellSkills_shape:
  "s \<in> set (cellSkills e) \<Longrightarrow> length s > 1 \<and> titleCase s = s"
  by (auto simp: cellSkills_def Let_def admitted_def length_titleCase titleCase_idem split: if_splits)

lemma skill_tokens_shape:
  assumes "r \<in> set (processedStudents (runRows rows))" "s \<in> set (rs_skills r)"
  shows "length s > 1 \<and> titleCase s = s"
proof -
  from assms(1) have "rs_skills r \<in> set (map rs_skills (processedStudents (runRows rows)))"
    by simp
  then obtain row where "rs_skills r = newSet (rowSkills row)"
    unfolding students_runRows by auto
  with assms(2) have "s \<in> set (rowSkills row)" by (simp add: set_newSet)
  then obtain e where "s \<in> set (cellSkills e)" by (auto simp: rowSkills_def)
  then show ?thesis by (rule cellSkills_shape)
qed

text \<open>
  C7. The filter \<^verbatim>\<open>!Number(t)\<close> rejects the tokens whose number is not zero, and lets
  pass those that denote zero: the token \<^verbatim>\<open>00\<close> parses as the number 0 and is admitted
  into the skill set of the row \<^verbatim>\<open>{"Skills": "Python, 00"}\<close>.
\<close>

theorem zero_token_admitted:
  "stringToNumber ''00'' = Value 0 \<and>
   rs_skills (last (processedStudents (rowStep [(''Skills'', CStr ''Python, 00'')] 0 initVars)))
     = [''Python'', ''00'']"
  by code_simp

section \<open>The match score\<close>

subsection \<open>Rounding to a double\<close>

lemma pow2_powi: "pow2 e = 2 powi e"
  by (simp add: pow2_def power_int_def power_one_over inverse_eq_divide)

lemma pow2_pos: "0 < pow2 e"
  by (simp add: pow2_powi)

lemma pow2_mono: "e \<le> e' \<Longrightarrow> pow2 e \<le> pow2 e'"
  by (simp add: pow2_powi power_int_increasing)

lemma pow2_less_exp: "pow2 e < pow2 e' \<Longrightarrow> e < e'"
  using pow2_mono [of e' e] by (cases "e < e'") auto

lemma ilog2_le: "0 < n \<Longrightarrow> 2 ^ ilog2 n \<le> n"
proof (induction n rule: ilog2.induct)
  case (1 n)
  show ?case
  proof (cases "n < 2")
    case True
    with "1.prems" show ?thesis by (simp add: ilog2.simps)
  next
    case False
    then have "0 < n div 2" by simp
    with "1.IH" False have "2 ^ ilog2 (n div 2) \<le> n div 2" by simp
    then have "2 * 2 ^ ilog2 (n div 2) \<le> n" by simp
    with False show ?thesis by (simp add: ilog2.simps [of n])
  qed
qed

lemma ilog2_gt: "n < 2 ^ Suc (ilog2 n)"
proof (induction n rule: ilog2.induct)
  case (1 n)
  show ?case
  proof (cases "n < 2")
    case True
    then show ?thesis by (simp add: ilog2.simps)
  next
    case False
    with "1.IH" have "n div 2 < 2 ^ Suc (ilog2 (n div 2))" by simp
    then have "n < 2 * 2 ^ Suc (ilog2 (n div 2))" by simp
    with False show ?thesis by (simp add: ilog2.simps [of n])
  qed
qed

lemma binExponent_le:
  assumes "0 < x"
  shows "pow2 (binExponent x) \<le> x"
proof -
  obtain a b where q: "quotient_of x = (a, b)" by (cases "quotient_of x")
  then have b: "0 < b" and x: "x = of_int a / of_int b"
    by (auto dest: quotient_of_denom_pos quotient_of_div)
  with assms have a: "0 < a" by (simp add: zero_less_divide_iff)
  let ?la = "ilog2 a" and ?lb = "ilog2 b"
  show ?thesis
  proof (cases "pow2 (int ?la - int ?lb) \<le> x")
    case True
    then show ?thesis by (simp add: binExponent_def q)
  next
    case False
    have "2 ^ ?la \<le> a" using a by (rule ilog2_le)
    then have "(of_int (2 ^ ?la) :: rat) \<le> of_int a" by (simp only: of_int_le_iff)
    then have la: "(2::rat) ^ ?la \<le> of_int a" by simp
    have "b < 2 ^ Suc ?lb" by (rule ilog2_gt)
    then have "(of_int b :: rat) < of_int (2 ^ Suc ?lb)" by (simp only: of_int_less_iff)
    then have lb: "of_int b \<le> (2::rat) ^ Suc ?lb" by simp
    have "pow2 (int ?la - int ?lb - 1) = 2 powi (int ?la - int (Suc ?lb))"
      by (simp add: pow2_powi algebra_simps)
    also have "\<dots> = 2 powi int ?la / 2 powi int (Suc ?lb)"
      by (rule power_int_diff) simp
    also have "\<dots> = 2 ^ ?la / 2 ^ Suc ?lb"
      by (simp only: power_int_of_nat)
    also have "\<dots> \<le> of_int a / of_int b"
      using la lb a b by (intro frac_le) simp_all
    finally have "pow2 (int ?la - int ?lb - 1) \<le> x" unfolding x [symmetric] .
    moreover have "binExponent x = int ?la - int ?lb - 1"
      using False by (simp add: binExponent_def q)
    ultimately show ?thesis by simp
  qed
qed

lemma binExponent_bound:
  assumes "0 < x" "x < pow2 j"
  shows "binExponent x < j"
  using binExponent_le [OF assms(1)] assms(2) by (intro pow2_less_exp) simp

lemma roundPos_error:
  "\<bar>roundPos x - x\<bar> \<le> pow2 (max (binExponent x) (- 1022) - 52) / 2"
proof -
  define u where "u = pow2 (max (binExponent x) (- 1022) - 52)"
  define k where "k = x / u"
  define n where "n = \<lfloor>k\<rfloor>"
  define r where "r = k - of_int n"
  define d where "d = roundPos x"
  have u: "0 < u" by (simp add: u_def pow2_pos)
  have r: "0 \<le> r" "r < 1" unfolding r_def n_def by linarith+
  have x: "x = (of_int n + r) * u" using u by (simp add: r_def k_def)
  have rp: "d = (if r < 1 / 2 \<or> (r = 1 / 2 \<and> even n) then of_int n else of_int (n + 1)) * u"
    by (simp add: d_def roundPos_def Let_def u_def k_def n_def r_def)
  have "\<bar>d - x\<bar> \<le> u / 2"
  proof (cases "r < 1 / 2 \<or> (r = 1 / 2 \<and> even n)")
    case True
    then have c: "(r < 1 / 2 \<or> (r = 1 / 2 \<and> even n)) = True" by blast
    have "d = of_int n * u" unfolding rp c if_True ..
    with x have "d - x = - (r * u)" by (simp add: algebra_simps)
    moreover from True have "r \<le> 1 / 2" by auto
    then have "r * u \<le> (1 / 2) * u" using u by (simp only: mult_le_cancel_right_pos)
    moreover have "0 \<le> r * u" using r u by simp
    ultimately show ?thesis by simp
  next
    case False
    then have c: "(r < 1 / 2 \<or> (r = 1 / 2 \<and> even n)) = False" by blast
    have "d = of_int (n + 1) * u" unfolding rp c if_False ..
    then have "d = (of_int n + 1) * u" by simp
    with x have "d - x = (1 - r) * u" by (simp add: algebra_simps)
    moreover from False have "1 / 2 \<le> r" by auto
    then have "(1 - r) * u \<le> (1 / 2) * u" using u by (simp only: mult_le_cancel_right_pos)
    moreover have "0 \<le> (1 - r) * u" using r u by simp
    ultimately show ?thesis by simp
  qed
  then show ?thesis by (simp add: d_def u_def)
qed

lemma roundPos_nonneg:
  assumes "0 \<le> x"
  shows "0 \<le> roundPos x"
proof -
  define u where "u = pow2 (max (binExponent x) (- 1022) - 52)"
  have u: "0 < u" by (simp add: u_def pow2_pos)
  then have "0 \<le> x / u" using assms by simp
  then have "0 \<le> \<lfloor>x / u\<rfloor>" by simp
  then have "0 \<le> (of_int \<lfloor>x / u\<rfloor> :: rat)" "0 \<le> (of_int (\<lfloor>x / u\<rfloor> + 1) :: rat)"
    by simp_all
  then show ?thesis
    using u unfolding roundPos_def Let_def u_def [symmetric] by (auto intro: mult_nonneg_nonneg)
qed

lemma roundPos_le_grid:
  assumes "x \<le> of_int N * pow2 (max (binExponent x) (- 1022) - 52)"
  shows "roundPos x \<le> of_int N * pow2 (max (binExponent x) (- 1022) - 52)"
proof -
  define u where "u = pow2 (max (binExponent x) (- 1022) - 52)"
  define k where "k = x / u"
  define n where "n = \<lfloor>k\<rfloor>"
  define r where "r = k - of_int n"
  have u: "0 < u" by (simp add: u_def pow2_pos)
  have kN: "k \<le> of_int N" using assms u by (simp add: k_def u_def [symmetric] pos_divide_le_eq)
  then have nN: "n \<le> N" unfolding n_def by (simp add: floor_le_iff)
  have rp: "roundPos x = (if r < 1 / 2 \<or> (r = 1 / 2 \<and> even n) then of_int n else of_int (n + 1)) * u"
    by (simp add: roundPos_def Let_def u_def k_def n_def r_def)
  have "(if r < 1 / 2 \<or> (r = 1 / 2 \<and> even n) then of_int n else of_int (n + 1)) \<le> (of_int N :: rat)"
  proof (cases "r < 1 / 2 \<or> (r = 1 / 2 \<and> even n)")
    case True
    with nN show ?thesis by simp
  next
    case False
    then have "0 < r" by auto
    then have "of_int n < k" by (simp add: r_def)
    with kN have "(of_int n :: rat) < of_int N" by linarith
    then have "n + 1 \<le> N" by simp
    then have "(of_int (n + 1) :: rat) \<le> of_int N" by (simp only: of_int_le_iff)
    with False show ?thesis by simp
  qed
  then show ?thesis unfolding rp u_def [symmetric] using u by (simp only: mult_le_cancel_right_pos)
qed


lemma pow2_grid: "j \<le> 0 \<Longrightarrow> of_int (C * 2 ^ nat (- j)) * pow2 j = of_int C"
  by (cases "j = 0") (simp_all add: pow2_def)

lemma roundDouble_props:
  assumes x0: "0 \<le> x" and xC: "x \<le> of_int C" and xJ: "x < pow2 J" and J: "J \<le> 53"
  shows "0 \<le> roundDouble x \<and> roundDouble x \<le> of_int C \<and>
         \<bar>roundDouble x - x\<bar> \<le> pow2 (max (J - 1) (- 1022) - 52) / 2"
proof (cases "x = 0")
  case True
  have "0 < pow2 (max (J - 1) (- 1022) - 52) / 2" using pow2_pos by simp
  with True xC show ?thesis by (simp add: roundDouble_def)
next
  case False
  with x0 have xp: "0 < x" by simp
  then have rd: "roundDouble x = roundPos x" by (simp add: roundDouble_def)
  define j where "j = max (binExponent x) (- 1022) - 52"
  have "binExponent x < J" using xp xJ by (rule binExponent_bound)
  then have jj: "j \<le> max (J - 1) (- 1022) - 52" by (simp add: j_def)
  with J have j0: "j \<le> 0" by simp
  have "x \<le> of_int (C * 2 ^ nat (- j)) * pow2 j"
    using xC by (simp only: pow2_grid [OF j0])
  then have "roundPos x \<le> of_int (C * 2 ^ nat (- j)) * pow2 j"
    unfolding j_def by (rule roundPos_le_grid)
  then have le: "roundPos x \<le> of_int C" by (simp only: pow2_grid [OF j0])
  have "\<bar>roundPos x - x\<bar> \<le> pow2 j / 2" unfolding j_def by (rule roundPos_error)
  moreover have "pow2 j \<le> pow2 (max (J - 1) (- 1022) - 52)" using jj by (rule pow2_mono)
  ultimately have err: "\<bar>roundPos x - x\<bar> \<le> pow2 (max (J - 1) (- 1022) - 52) / 2" by simp
  from roundPos_nonneg [OF x0] le err show ?thesis by (simp add: rd)
qed

text \<open>The double that \<^verbatim>\<open>Math.round\<close> receives lies within \<open>2\<^sup>-\<^sup>4\<^sup>5\<close> of the exact percentage.\<close>

lemma product_props:
  assumes t: "0 < t" and m: "m \<le> t"
  defines "d2 \<equiv> roundDouble (roundDouble (of_nat m / of_nat t) * 100)"
  shows "0 \<le> d2 \<and> d2 \<le> 100 \<and> \<bar>d2 - 100 * of_nat m / of_nat t\<bar> \<le> 1 / 2 ^ 45"
proof -
  define x :: rat where "x = of_nat m / of_nat t"
  define d1 where "d1 = roundDouble x"
  have x0: "0 \<le> x" by (simp add: x_def)
  have x1: "x \<le> of_int 1" using t m by (simp add: x_def)
  have "x < pow2 1" using x1 by (simp add: pow2_def)
  from roundDouble_props [OF x0 x1 this] have
    d1: "0 \<le> d1" "d1 \<le> 1" and e1: "\<bar>d1 - x\<bar> \<le> pow2 (- 52) / 2"
    by (simp_all add: d1_def)
  have p0: "0 \<le> d1 * 100" using d1 by simp
  have p1: "d1 * 100 \<le> of_int 100" using d1 by simp
  have "d1 * 100 < pow2 7" using p1 by (simp add: pow2_def)
  from roundDouble_props [OF p0 p1 this] have
    d2: "0 \<le> d2" "d2 \<le> 100" and e2: "\<bar>d2 - d1 * 100\<bar> \<le> pow2 (- 46) / 2"
    by (simp_all add: d2_def d1_def x_def)
  have "\<bar>d2 - 100 * x\<bar> = \<bar>(d2 - d1 * 100) + 100 * (d1 - x)\<bar>"
    by (simp add: algebra_simps)
  also have "\<dots> \<le> \<bar>d2 - d1 * 100\<bar> + \<bar>100 * (d1 - x)\<bar>" by (rule abs_triangle_ineq)
  also have "\<dots> = \<bar>d2 - d1 * 100\<bar> + 100 * \<bar>d1 - x\<bar>"
    by (simp only: abs_mult abs_numeral)
  also have "\<dots> \<le> pow2 (- 46) / 2 + 100 * (pow2 (- 52) / 2)"
    using e1 e2 by (intro add_mono mult_left_mono) simp_all
  also have "\<dots> \<le> 1 / 2 ^ 45" by (simp add: pow2_def)
  finally show ?thesis using d2 by (simp add: x_def)
qed

lemma scorePct_bounds: "0 < t \<Longrightarrow> m \<le> t \<Longrightarrow> 0 \<le> scorePct m t \<and> scorePct m t \<le> 100"
  using product_props [of t m] unfolding scorePct_def mathRound_def
  by (simp add: le_floor_iff floor_le_iff)

lemma round_half_cases:
  fixes d :: rat and A B :: int
  assumes B: "0 < B" "of_int B < (2::rat) ^ 45"
    and err: "\<bar>d + 1 / 2 - of_int A / of_int B\<bar> \<le> 1 / 2 ^ 45"
  shows "\<lfloor>d + 1 / 2\<rfloor> = A div B \<or> (B dvd A \<and> \<lfloor>d + 1 / 2\<rfloor> = A div B - 1)"
proof -
  define N where "N = A div B"
  define R where "R = A mod B"
  have A: "A = N * B + R" by (simp add: N_def R_def)
  have R: "0 \<le> R" "R < B" using B(1) by (simp_all add: R_def)
  have Bq: "(0::rat) < of_int B" using B(1) by simp
  have q: "of_int A / of_int B = (of_int N :: rat) + of_int R / of_int B"
    using Bq by (simp add: A field_simps)
  have eps: "(1::rat) / 2 ^ 45 < 1 / of_int B"
    using B(2) Bq by (simp add: field_simps)
  show ?thesis
  proof (cases "R = 0")
    case True
    then have dv: "B dvd A" by (simp add: R_def dvd_eq_mod_eq_0)
    from True q err have e: "\<bar>d + 1 / 2 - of_int N\<bar> \<le> 1 / 2 ^ 45" by simp
    have small: "(1::rat) / 2 ^ 45 < 1" by simp
    show ?thesis
    proof (cases "of_int N \<le> d + 1 / 2")
      case True
      with e small have "\<lfloor>d + 1 / 2\<rfloor> = N" by (intro floor_unique) linarith+
      then show ?thesis by (simp add: N_def)
    next
      case False
      with e small have "\<lfloor>d + 1 / 2\<rfloor> = N - 1" by (intro floor_unique) (simp, linarith)+
      with dv show ?thesis by (simp add: N_def)
    qed
  next
    case False
    with R have R1: "1 \<le> R" "R \<le> B - 1" by simp_all
    then have "(1::rat) \<le> of_int R" "(of_int R :: rat) \<le> of_int B - 1"
      by (simp_all only: of_int_le_iff [symmetric, where 'a = rat] of_int_1 of_int_diff)
    then have lo: "1 / of_int B \<le> (of_int R :: rat) / of_int B"
      and hi: "(of_int R :: rat) / of_int B \<le> 1 - 1 / of_int B"
      using Bq by (simp_all add: field_simps)
    from err q have "of_int N + of_int R / of_int B - 1 / 2 ^ 45 \<le> d + 1 / 2"
      "d + 1 / 2 \<le> of_int N + of_int R / of_int B + 1 / 2 ^ 45"
      by linarith+
    with lo hi eps have "of_int N \<le> d + 1 / 2" "d + 1 / 2 < of_int N + 1" by linarith+
    then have "\<lfloor>d + 1 / 2\<rfloor> = N" by (rule floor_unique)
    then show ?thesis by (simp add: N_def)
  qed
qed

lemma scorePct_half_up:
  assumes t: "0 < t" "t < 2 ^ 44" and m: "m \<le> t"
  shows "scorePct m t = (200 * int m + int t) div (2 * int t) \<or>
         ((2 * int t) dvd (200 * int m + int t) \<and>
          scorePct m t = (200 * int m + int t) div (2 * int t) - 1)"
proof -
  define d2 where "d2 = roundDouble (roundDouble (of_nat m / of_nat t) * 100)"
  have e: "\<bar>d2 - 100 * of_nat m / of_nat t\<bar> \<le> 1 / 2 ^ 45"
    using product_props [OF t(1) m] by (simp add: d2_def)
  have B: "0 < 2 * int t" using t(1) by simp
  have "int t < 2 ^ 44" using t(2) by (metis of_nat_less_iff of_nat_numeral of_nat_power)
  then have "2 * int t < 2 ^ 45" by simp
  then have B2: "of_int (2 * int t) < (2::rat) ^ 45"
    by (metis of_int_less_iff of_int_numeral of_int_power)
  have "of_int (200 * int m + int t) / of_int (2 * int t) = 100 * of_nat m / of_nat t + (1 / 2 :: rat)"
    using t(1) by (simp add: field_simps)
  with e have "\<bar>d2 + 1 / 2 - of_int (200 * int m + int t) / of_int (2 * int t)\<bar> \<le> 1 / 2 ^ 45"
    by simp
  from round_half_cases [OF B B2 this] show ?thesis
    by (simp add: scorePct_def mathRound_def d2_def)
qed

subsection \<open>The score of both paths\<close>

lemma found_nil: "found [] r = False"
  by (simp add: found_def)

lemma newSet_nil: "newSet [] = []"
  by (simp add: newSet_def)

lemma adhoc_score:
  "fst (adhocMatch cand required) =
     scorePct (length (filter (\<lambda>r. found (newSet (map toLowerCase cand)) (toLowerCase r)) required))
       (max 1 (length required))"
  by (cases required) (simp_all add: adhocMatch_def Let_def adhoc_fold emptyAcc_def)

lemma bulk_score:
  "fst (bulkMatch cand reqSet) =
     scorePct (length (filter (found (newSet (map toLowerCase cand))) reqSet)) (max 1 (length reqSet))"
  by (cases reqSet) (simp_all add: bulkMatch_def Let_def bulk_fold emptyAcc_def)

lemma filter_le_max: "length (filter P xs) \<le> max 1 (length xs)"
  using length_filter_le [of P xs] by (simp add: le_max_iff_disj)

lemma score_in_range: "0 \<le> scorePct (length (filter P xs)) (max 1 (length xs)) \<and>
    scorePct (length (filter P xs)) (max 1 (length xs)) \<le> 100"
proof -
  have "0 < max 1 (length xs)" by simp
  from scorePct_bounds [OF this filter_le_max] show ?thesis .
qed

lemma adhoc_in_range:
  "0 \<le> fst (adhocMatch cand required) \<and> fst (adhocMatch cand required) \<le> 100"
  unfolding adhoc_score by (rule score_in_range)

lemma bulk_in_range:
  "0 \<le> fst (bulkMatch cand reqSet) \<and> fst (bulkMatch cand reqSet) \<le> 100"
  unfolding bulk_score by (rule score_in_range)

lemma requiredSet_size:
  "length (requiredSet (Some role)) = card (toLowerCase ` set (requiredSkills role))"
  using distinct_card [OF distinct_newSet, of "map toLowerCase (requiredSkills role)"]
  by (simp add: requiredSet_def set_newSet)

lemma score_23_of_40: "scorePct 23 40 = 57"
  by code_simp

text \<open>
  C5, as the code has it: the score is \<^verbatim>\<open>Math.round\<close> of the double-precision product
  \<^verbatim>\<open>(matched / total) * 100\<close>, where the ad-hoc path counts over the required-skill
  list and divides by its length (1 when empty), and the bulk path counts over the set of
  distinct lower-cased required skills and divides by its size (1 when empty). The score
  lies between 0 and 100; an empty requirement gives score 0 and no missing skill; an
  empty candidate set gives score 0 with every requirement missing (in the bulk path the
  first five, capitalized). For fewer than \<open>2\<^sup>4\<^sup>4\<close> requirements the score is the exact
  percentage rounded half up, except that at an exact half percent the double product may
  fall below the half and give one less: 23 of 40 score 57.
\<close>

theorem match_score_formula:
  "fst (adhocMatch cand required) =
     scorePct (length (filter (\<lambda>r. found (newSet (map toLowerCase cand)) (toLowerCase r)) required))
       (max 1 (length required)) \<and>
   fst (bulkMatch cand reqSet) =
     scorePct (length (filter (found (newSet (map toLowerCase cand))) reqSet)) (max 1 (length reqSet)) \<and>
   length (requiredSet (Some role)) = card (toLowerCase ` set (requiredSkills role)) \<and>
   0 \<le> fst (adhocMatch cand required) \<and> fst (adhocMatch cand required) \<le> 100 \<and>
   0 \<le> fst (bulkMatch cand reqSet) \<and> fst (bulkMatch cand reqSet) \<le> 100 \<and>
   adhocMatch cand [] = (0, []) \<and> bulkMatch cand [] = (0, []) \<and>
   adhocMatch [] required = (0, required) \<and>
   bulkMatch [] reqSet = (0, take 5 (map capitalize reqSet)) \<and>
   (\<forall>m t. 0 < t \<and> t < 2 ^ 44 \<and> m \<le> t \<longrightarrow>
      scorePct m t = (200 * int m + int t) div (2 * int t) \<or>
      ((2 * int t) dvd (200 * int m + int t) \<and>
       scorePct m t = (200 * int m + int t) div (2 * int t) - 1)) \<and>
   scorePct 23 40 = 57"
proof (intro conjI)
  show "fst (adhocMatch cand required) =
     scorePct (length (filter (\<lambda>r. found (newSet (map toLowerCase cand)) (toLowerCase r)) required))
       (max 1 (length required))"
    by (rule adhoc_score)
  show "fst (bulkMatch cand reqSet) =
     scorePct (length (filter (found (newSet (map toLowerCase cand))) reqSet)) (max 1 (length reqSet))"
    by (rule bulk_score)
  show "length (requiredSet (Some role)) = card (toLowerCase ` set (requiredSkills role))"
    by (rule requiredSet_size)
  show "0 \<le> fst (adhocMatch cand required)" by (rule adhoc_in_range [THEN conjunct1])
  show "fst (adhocMatch cand required) \<le> 100" by (rule adhoc_in_range [THEN conjunct2])
  show "0 \<le> fst (bulkMatch cand reqSet)" by (rule bulk_in_range [THEN conjunct1])
  show "fst (bulkMatch cand reqSet) \<le> 100" by (rule bulk_in_range [THEN conjunct2])
  show "adhocMatch cand [] = (0, [])"
    by (simp add: adhocMatch_def emptyAcc_def scorePct_zero)
  show "bulkMatch cand [] = (0, [])"
    by (rule bulkMatch_no_requirements)
  show "adhocMatch [] required = (0, required)"
    by (simp add: adhocMatch_def Let_def adhoc_fold emptyAcc_def newSet_nil found_nil scorePct_zero)
  show "bulkMatch [] reqSet = (0, take 5 (map capitalize reqSet))"
    by (simp add: bulkMatch_def Let_def bulk_fold emptyAcc_def newSet_nil found_nil scorePct_zero)
  show "\<forall>m t. 0 < t \<and> t < 2 ^ 44 \<and> m \<le> t \<longrightarrow>
      scorePct m t = (200 * int m + int t) div (2 * int t) \<or>
      ((2 * int t) dvd (200 * int m + int t) \<and>
       scorePct m t = (200 * int m + int t) div (2 * int t) - 1)"
    by (intro allI impI, elim conjE) (rule scorePct_half_up)
  show "scorePct 23 40 = 57" by (rule score_23_of_40)
qed

theorem match_score_formula_witness:
  "scorePct 2 3 = 67 \<and>
   fst (adhocMatch [''Python'', ''Sql''] [''Python'', ''SQL'', ''Java'']) \<le> 100"
proof -
  note th = match_score_formula [of "[''Python'', ''Sql'']" "[''Python'', ''SQL'', ''Java'']" "[]"
      "\<lparr>title = [], requiredSkills = []\<rparr>"]
  have "\<forall>m t. 0 < t \<and> t < 2 ^ 44 \<and> m \<le> t \<longrightarrow>
      scorePct m t = (200 * int m + int t) div (2 * int t) \<or>
      ((2 * int t) dvd (200 * int m + int t) \<and>
       scorePct m t = (200 * int m + int t) div (2 * int t) - 1)"
    using th by (elim conjE)
  then have "\<forall>t. 0 < t \<and> t < 2 ^ 44 \<and> (2::nat) \<le> t \<longrightarrow>
      scorePct 2 t = (200 * int 2 + int t) div (2 * int t) \<or>
      ((2 * int t) dvd (200 * int 2 + int t) \<and>
       scorePct 2 t = (200 * int 2 + int t) div (2 * int t) - 1)"
    by (rule spec)
  then have "0 < (3::nat) \<and> (3::nat) < 2 ^ 44 \<and> (2::nat) \<le> 3 \<longrightarrow>
      scorePct 2 3 = (200 * int 2 + int 3) div (2 * int 3) \<or>
      ((2 * int 3) dvd (200 * int 2 + int 3) \<and>
       scorePct 2 3 = (200 * int 2 + int 3) div (2 * int 3) - 1)"
    by (rule spec)
  moreover have "0 < (3::nat) \<and> (3::nat) < 2 ^ 44 \<and> (2::nat) \<le> 3" by simp
  ultimately have "scorePct 2 3 = (200 * int 2 + int 3) div (2 * int 3) \<or>
      ((2 * int 3) dvd (200 * int 2 + int 3) \<and>
       scorePct 2 3 = (200 * int 2 + int 3) div (2 * int 3) - 1)"
    by (rule mp)
  then have a: "scorePct 2 3 = 67" by simp
  have b: "fst (adhocMatch [''Python'', ''Sql''] [''Python'', ''SQL'', ''Java'']) \<le> 100"
    using th by (elim conjE)
  from a b show ?thesis by (rule conjI)
qed

text \<open>
  C5. In the bulk path the total is not the length of the required-skill list: with the
  three required skills \<^verbatim>\<open>SQL\<close>, \<^verbatim>\<open>sql\<close>, \<^verbatim>\<open>Java\<close> and the candidate \<^verbatim>\<open>sql\<close> the score
  is 50, which no count of matches out of three gives.
\<close>

theorem match_score_counterexample:
  "fst (bulkMatch [''sql''] (requiredSet (Some \<lparr>title = ''Analyst'',
          requiredSkills = [''SQL'', ''sql'', ''Java'']\<rparr>))) = 50 \<and>
   scorePct 0 3 \<noteq> 50 \<and> scorePct 1 3 \<noteq> 50 \<and> scorePct 2 3 \<noteq> 50 \<and> scorePct 3 3 \<noteq> 50"
  by code_simp

section \<open>Satisfaction at both call sites\<close>

lemma found_satisfiedBy: "found (newSet (map toLowerCase cand)) q = satisfiedBy cand q"
  unfolding found_iff set_newSet set_map satisfiedBy_def ..

lemma adhocMatch_satisfiedBy:
  "adhocMatch cand required =
     (scorePct (length (filter (\<lambda>r. satisfiedBy cand (toLowerCase r)) required))
        (max 1 (length required)),
      filter (\<lambda>r. \<not> satisfiedBy cand (toLowerCase r)) required)"
proof (rule prod_eqI)
  show "fst (adhocMatch cand required) =
      fst (scorePct (length (filter (\<lambda>r. satisfiedBy cand (toLowerCase r)) required))
             (max 1 (length required)),
           filter (\<lambda>r. \<not> satisfiedBy cand (toLowerCase r)) required)"
    unfolding adhoc_score found_satisfiedBy by simp
  show "snd (adhocMatch cand required) =
      snd (scorePct (length (filter (\<lambda>r. satisfiedBy cand (toLowerCase r)) required))
             (max 1 (length required)),
           filter (\<lambda>r. \<not> satisfiedBy cand (toLowerCase r)) required)"
    by (simp add: adhocMatch_def Let_def adhoc_fold emptyAcc_def found_satisfiedBy)
qed

lemma requiredSet_first_occurrences:
  "requiredSet ro =
     rev (remdups (rev (map toLowerCase (case ro of None \<Rightarrow> [] | Some role \<Rightarrow> requiredSkills role))))"
  by (simp add: requiredSet_def newSet_first_occurrences)

lemma bulkMatch_satisfiedBy:
  "bulkMatch cand reqSet =
     (scorePct (length (filter (satisfiedBy cand) reqSet)) (max 1 (length reqSet)),
      take 5 (map capitalize (filter (\<lambda>q. \<not> satisfiedBy cand q) reqSet)))"
proof (rule prod_eqI)
  show "fst (bulkMatch cand reqSet) =
      fst (scorePct (length (filter (satisfiedBy cand) reqSet)) (max 1 (length reqSet)),
           take 5 (map capitalize (filter (\<lambda>q. \<not> satisfiedBy cand q) reqSet)))"
    unfolding bulk_score found_satisfiedBy by simp
  show "snd (bulkMatch cand reqSet) =
      snd (scorePct (length (filter (satisfiedBy cand) reqSet)) (max 1 (length reqSet)),
           take 5 (map capitalize (filter (\<lambda>q. \<not> satisfiedBy cand q) reqSet)))"
    by (simp add: bulkMatch_def Let_def bulk_fold emptyAcc_def found_satisfiedBy)
qed

lemma studentOf_match:
  "matchScore (studentOf mappings raw) =
     fst (bulkMatch (rs_skills raw)
            (requiredSet (defaultRole (findDeptMap mappings (rs_department raw))))) \<and>
   missingSkills (studentOf mappings raw) =
     snd (bulkMatch (rs_skills raw)
            (requiredSet (defaultRole (findDeptMap mappings (rs_department raw)))))"
  by (simp add: studentOf_def Let_def)

lemma react_at_call_sites:
  "adhocMatch [''react native''] [''React''] = (100, []) \<and>
   bulkMatch [''react native'']
     (requiredSet (Some \<lparr>title = ''Developer'', requiredSkills = [''React'']\<rparr>)) = (100, [])"
  by code_simp

lemma js_at_call_sites:
  "adhocMatch [''javascript''] [''JS''] = (0, [''JS'']) \<and>
   bulkMatch [''javascript'']
     (requiredSet (Some \<lparr>title = ''Developer'', requiredSkills = [''JS'']\<rparr>)) = (0, [''Js''])"
  by code_simp

lemma accented_letters_fold:
  "adhocMatch [[CHR ''C'', CHR ''A'', CHR ''F'', CHR 0xC9]] [[CHR ''c'', CHR ''a'', CHR ''f'', CHR 0xE9]] = (100, [])"
  by code_simp

text \<open>
  C6. Both call sites mark a required skill satisfied if and only if the case-folded
  candidate set contains the case-folded skill, or some case-folded candidate contains it
  or is contained in it as a contiguous substring. The ad-hoc site folds the candidates
  and each required skill itself: its score counts exactly the required skills that meet
  the criterion and its missing list holds exactly those that do not. The bulk site folds
  the candidates and the required skills (keeping first occurrences) before the loop; its
  score and missing skills follow the same criterion, and each student profile carries
  them. Inside both loops a skill is counted exactly when the criterion holds and pushed
  onto the missing list exactly when it does not. The candidate \<^verbatim>\<open>react native\<close>
  satisfies \<^verbatim>\<open>React\<close> at both sites, the candidate \<^verbatim>\<open>javascript\<close> does not satisfy
  \<^verbatim>\<open>JS\<close>.
\<close>

theorem satisfied_iff_containment:
  "adhocMatch cand required =
     (scorePct (length (filter (\<lambda>r. satisfiedBy cand (toLowerCase r)) required))
        (max 1 (length required)),
      filter (\<lambda>r. \<not> satisfiedBy cand (toLowerCase r)) required) \<and>
   bulkMatch cand (requiredSet ro) =
     (scorePct (length (filter (satisfiedBy cand) (requiredSet ro))) (max 1 (length (requiredSet ro))),
      take 5 (map capitalize (filter (\<lambda>q. \<not> satisfiedBy cand q) (requiredSet ro)))) \<and>
   requiredSet ro =
     rev (remdups (rev (map toLowerCase (case ro of None \<Rightarrow> [] | Some role \<Rightarrow> requiredSkills role)))) \<and>
   matchScore (studentOf mappings raw) =
     fst (bulkMatch (rs_skills raw)
            (requiredSet (defaultRole (findDeptMap mappings (rs_department raw))))) \<and>
   missingSkills (studentOf mappings raw) =
     snd (bulkMatch (rs_skills raw)
            (requiredSet (defaultRole (findDeptMap mappings (rs_department raw))))) \<and>
   ((matchCount (adhocStep (newSet (map toLowerCase cand)) r acc) = Suc (matchCount acc)) =
      (toLowerCase r \<in> toLowerCase ` set cand \<or>
       (\<exists>c \<in> toLowerCase ` set cand. sublist (toLowerCase r) c \<or> sublist c (toLowerCase r)))) \<and>
   ((matchCount (bulkStep (newSet (map toLowerCase cand)) (toLowerCase r) acc) = Suc (matchCount acc)) =
      (toLowerCase r \<in> toLowerCase ` set cand \<or>
       (\<exists>c \<in> toLowerCase ` set cand. sublist (toLowerCase r) c \<or> sublist c (toLowerCase r)))) \<and>
   ((missing (adhocStep (newSet (map toLowerCase cand)) r acc) = missing acc) =
      (matchCount (adhocStep (newSet (map toLowerCase cand)) r acc) = Suc (matchCount acc))) \<and>
   ((missing (bulkStep (newSet (map toLowerCase cand)) (toLowerCase r) acc) = missing acc) =
      (matchCount (bulkStep (newSet (map toLowerCase cand)) (toLowerCase r) acc) = Suc (matchCount acc))) \<and>
   found (newSet (map toLowerCase [''react native''])) (toLowerCase ''React'') \<and>
   \<not> found (newSet (map toLowerCase [''javascript''])) (toLowerCase ''JS'') \<and>
   adhocMatch [''react native''] [''React''] = (100, []) \<and>
   bulkMatch [''react native'']
     (requiredSet (Some \<lparr>title = ''Developer'', requiredSkills = [''React'']\<rparr>)) = (100, []) \<and>
   adhocMatch [''javascript''] [''JS''] = (0, [''JS'']) \<and>
   bulkMatch [''javascript'']
     (requiredSet (Some \<lparr>title = ''Developer'', requiredSkills = [''JS'']\<rparr>)) = (0, [''Js''])"
proof -
  let ?S = "newSet (map toLowerCase cand)"
  have f: "found ?S (toLowerCase r) =
      (toLowerCase r \<in> toLowerCase ` set cand \<or>
       (\<exists>c \<in> toLowerCase ` set cand. sublist (toLowerCase r) c \<or> sublist c (toLowerCase r)))"
    unfolding found_iff set_newSet set_map ..
  have steps:
   "((matchCount (adhocStep ?S r acc) = Suc (matchCount acc)) =
      (toLowerCase r \<in> toLowerCase ` set cand \<or>
       (\<exists>c \<in> toLowerCase ` set cand. sublist (toLowerCase r) c \<or> sublist c (toLowerCase r)))) \<and>
   ((matchCount (bulkStep ?S (toLowerCase r) acc) = Suc (matchCount acc)) =
      (toLowerCase r \<in> toLowerCase ` set cand \<or>
       (\<exists>c \<in> toLowerCase ` set cand. sublist (toLowerCase r) c \<or> sublist c (toLowerCase r)))) \<and>
   ((missing (adhocStep ?S r acc) = missing acc) =
      (matchCount (adhocStep ?S r acc) = Suc (matchCount acc))) \<and>
   ((missing (bulkStep ?S (toLowerCase r) acc) = missing acc) =
      (matchCount (bulkStep ?S (toLowerCase r) acc) = Suc (matchCount acc))) \<and>
   found (newSet (map toLowerCase [''react native''])) (toLowerCase ''React'') \<and>
   \<not> found (newSet (map toLowerCase [''javascript''])) (toLowerCase ''JS'')"
    unfolding adhocStep_count adhocStep_missing bulkStep_count bulkStep_missing
    using f found_react found_js by (auto simp del: set_map)
  note sites = adhocMatch_satisfiedBy [of cand required] bulkMatch_satisfiedBy [of cand "requiredSet ro"]
    requiredSet_first_occurrences [of ro]
    studentOf_match [of mappings raw, THEN conjunct1] studentOf_match [of mappings raw, THEN conjunct2]
  note ex = react_at_call_sites [THEN conjunct1] react_at_call_sites [THEN conjunct2]
    js_at_call_sites [THEN conjunct1] js_at_call_sites [THEN conjunct2]
  show ?thesis
    by (intro conjI sites ex steps [THEN conjunct1]
        steps [THEN conjunct2, THEN conjunct1]
        steps [THEN conjunct2, THEN conjunct2, THEN conjunct1]
        steps [THEN conjunct2, THEN conjunct2, THEN conjunct2, THEN conjunct1]
        steps [THEN conjunct2, THEN conjunct2, THEN conjunct2, THEN conjunct2, THEN conjunct1]
        steps [THEN conjunct2, THEN conjunct2, THEN conjunct2, THEN conjunct2, THEN conjunct2])
qed

theorem satisfied_iff_containment_witness:
  "satisfiedBy [''react native''] (toLowerCase ''React'') \<and>
   adhocMatch [''react native''] [''React''] = (100, [])"
proof -
  have low: "toLowerCase ''React'' = ''react''" "toLowerCase ''react native'' = ''react native''"
    by code_simp+
  have "includesStr ''react native'' ''react''" by code_simp
  then have "sublist (toLowerCase ''React'') (toLowerCase ''react native'')"
    by (simp only: low includesStr_sublist)
  then have sat: "satisfiedBy [''react native''] (toLowerCase ''React'')"
    by (simp add: satisfiedBy_def)
  have "adhocMatch [''react native''] [''React''] =
     (scorePct (length (filter (\<lambda>r. satisfiedBy [''react native''] (toLowerCase r)) [''React'']))
        (max 1 (length [''React''])),
      filter (\<lambda>r. \<not> satisfiedBy [''react native''] (toLowerCase r)) [''React''])"
    by (rule satisfied_iff_containment [of "[''react native'']" "[''React'']", THEN conjunct1])
  moreover have "filter (\<lambda>r. satisfiedBy [''react native''] (toLowerCase r)) [''React''] = [''React'']"
    using sat by (simp only: filter.simps if_True)
  moreover have "filter (\<lambda>r. \<not> satisfiedBy [''react native''] (toLowerCase r)) [''React''] = []"
    using sat by (simp only: filter.simps not_True_eq_False if_False simp_thms)
  moreover have "scorePct 1 1 = 100" by code_simp
  ultimately have "adhocMatch [''react native''] [''React''] = (100, [])"
    by simp
  with sat show ?thesis by (rule conjI)
qed

end
